theory Spec2Isabelle
  imports Complex_Main "HOL-Library.AList" "HOL-Library.Char_ord" "HOL-Library.List_Lexorder"
begin

section \<open>JavaScript values used by the chart components\<close>

text \<open>
  Strings are lists of code units; only code units below 256 are represented.
  A plain object used as a dictionary is an association list of its own properties, with
  distinct keys, kept in the order in which the keys were first assigned.

  A plain object also inherits the members of \<open>Object.prototype\<close>. Reading \<open>o[k]\<close>
  gives the own property when there is one, else the inherited member when \<open>k\<close> names
  one (a function, or the prototype itself for \<open>__proto__\<close>: truthy, not a string, not
  a number), else \<open>undefined\<close>. Assigning a string or a number to \<open>o["__proto__"]\<close>
  runs the inherited setter, which ignores such a value: no own property is created.
  Every call is taken to start with \<open>Object.prototype\<close> as the language defines it.

  The parser, the group aggregator, \<open>countConditions\<close> and the table of the pivot
  aggregator are modelled with the inherited members. The filters and the comparator are
  modelled on own properties only (\<open>map_of\<close>, \<open>None\<close> for \<open>undefined\<close>, and
  \<open>AList.update\<close>): this is what the code does as long as no column name and no key it
  meets names an inherited member.
\<close>

type_synonym 'v obj = "(string \<times> 'v) list"

definition inherited :: "string \<Rightarrow> bool" where
  "inherited k =
     (k \<in> set [''constructor'', ''__defineGetter__'', ''__defineSetter__'', ''hasOwnProperty'',
               ''__lookupGetter__'', ''__lookupSetter__'', ''isPrototypeOf'',
               ''propertyIsEnumerable'', ''toString'', ''valueOf'', ''__proto__'',
               ''toLocaleString''])"

text \<open>The value of \<open>o[k]\<close>.\<close>

datatype 'v read = Own 'v | Member | Undefined

definition readProp :: "'v obj \<Rightarrow> string \<Rightarrow> 'v read" where
  "readProp ob k =
     (case map_of ob k of
        Some v \<Rightarrow> Own v
      | None \<Rightarrow> if inherited k then Member else Undefined)"

text \<open>\<open>o[k] = v\<close> for a string or a number \<open>v\<close>.\<close>

definition assign :: "string \<Rightarrow> 'v \<Rightarrow> 'v obj \<Rightarrow> 'v obj" where
  "assign k v ob =
     (if k = ''__proto__'' \<and> map_of ob k = None then ob else AList.update k v ob)"

text \<open>Truthiness of a string property: a member is truthy.\<close>

fun truthyRead :: "string read \<Rightarrow> bool" where
  "truthyRead (Own s) = (s \<noteq> [])"
| "truthyRead Member = True"
| "truthyRead Undefined = False"

text \<open>
  A \<open>TypeError\<close> ends the call. \<open>forEach\<close> runs a callback that may throw over a
  list, the state passed along.
\<close>

datatype error = TypeError

fun forEach :: "('s \<Rightarrow> 'a \<Rightarrow> 'e + 's) \<Rightarrow> 's \<Rightarrow> 'a list \<Rightarrow> 'e + 's" where
  "forEach f s [] = Inr s"
| "forEach f s (x # xs) = (case f s x of Inl e \<Rightarrow> Inl e | Inr s' \<Rightarrow> forEach f s' xs)"

text \<open>The code units that \<open>String.prototype.trim\<close> strips, below 256.\<close>

definition isWhiteSpace :: "char \<Rightarrow> bool" where
  "isWhiteSpace c = ((of_char c :: int) \<in> {9, 10, 11, 12, 13, 32, 160})"

definition trimStart :: "string \<Rightarrow> string" where
  "trimStart s = dropWhile isWhiteSpace s"

definition trim :: "string \<Rightarrow> string" where
  "trim s = rev (dropWhile isWhiteSpace (rev (dropWhile isWhiteSpace s)))"

text \<open>
  \<open>s.split(sep)\<close> for a separator string; the accumulator holds the current field
  reversed. With the empty separator JavaScript splits into code units; the components
  only split on \<open>"\n"\<close>, \<open>","\<close> and \<open>", "\<close>.
\<close>

function splitOn :: "string \<Rightarrow> string \<Rightarrow> string \<Rightarrow> string list" where
  "splitOn sep acc [] = [rev acc]"
| "splitOn sep acc (c # cs) =
     (if sep \<noteq> [] \<and> take (length sep) (c # cs) = sep
      then rev acc # splitOn sep [] (drop (length sep) (c # cs))
      else splitOn sep (c # acc) cs)"
  by pat_completeness auto
termination
  by (relation "measure (\<lambda>(sep, acc, s). length s)") auto

definition split :: "string \<Rightarrow> string \<Rightarrow> string list" where
  "split s sep = (if sep = [] then map (\<lambda>c. [c]) s else splitOn sep [] s)"

text \<open>Truthiness of \<open>item[col]\<close>: \<open>undefined\<close> and the empty string are falsy.\<close>

fun truthy :: "string option \<Rightarrow> bool" where
  "truthy None = False"
| "truthy (Some s) = (s \<noteq> [])"

text \<open>
  Own string keys of an object in the order of \<open>Object.entries\<close>: array indices
  (canonical numeric strings below \<open>2^32 - 1\<close>) first, ascending, then the other keys
  in the order of their creation.
\<close>

definition isDigit :: "char \<Rightarrow> bool" where
  "isDigit c = (48 \<le> (of_char c :: int) \<and> (of_char c :: int) \<le> 57)"

definition digitsVal :: "string \<Rightarrow> int" where
  "digitsVal ds = foldl (\<lambda>a c. 10 * a + ((of_char c :: int) - 48)) 0 ds"

definition isArrayIndex :: "string \<Rightarrow> bool" where
  "isArrayIndex k =
     (k \<noteq> [] \<and> list_all isDigit k \<and> (k = ''0'' \<or> hd k \<noteq> CHR ''0'')
      \<and> digitsVal k < 4294967295)"

definition entries :: "'v obj \<Rightarrow> (string \<times> 'v) list" where
  "entries ob =
     sort_key (\<lambda>kv. digitsVal (fst kv)) (filter (\<lambda>kv. isArrayIndex (fst kv)) ob)
     @ filter (\<lambda>kv. \<not> isArrayIndex (fst kv)) ob"

text \<open>
  \<open>Array.prototype.sort(compareFn)\<close> is stable; for a consistent comparator its result
  is that of a stable insertion sort. \<open>after a b\<close> stands for \<open>compareFn(a, b) > 0\<close>
  (\<open>a\<close> is placed after \<open>b\<close>); a zero or \<open>NaN\<close> result keeps the order.
\<close>

fun insertBy :: "('a \<Rightarrow> 'a \<Rightarrow> bool) \<Rightarrow> 'a \<Rightarrow> 'a list \<Rightarrow> 'a list" where
  "insertBy after x [] = [x]"
| "insertBy after x (y # ys) = (if after x y then y # insertBy after x ys else x # y # ys)"

definition sortBy :: "('a \<Rightarrow> 'a \<Rightarrow> bool) \<Rightarrow> 'a list \<Rightarrow> 'a list" where
  "sortBy after xs = foldr (insertBy after) xs []"

text \<open>\<open>Array.from(new Set(xs))\<close>: the distinct elements in the order of first occurrence.\<close>

definition uniq :: "'a list \<Rightarrow> 'a list" where
  "uniq xs = foldl (\<lambda>acc x. if x \<in> set acc then acc else acc @ [x]) [] xs"

subsection \<open>Numbers\<close>

text \<open>
  A number is a rational, an infinity or \<open>NaN\<close>. The rounding of IEEE doubles (and the
  overflow of finite sums to an infinity) is not modelled, and the two zeros are one.
\<close>

datatype jsnum = Fin rat | PInf | NInf | NaN

fun isNaN :: "jsnum \<Rightarrow> bool" where
  "isNaN NaN = True"
| "isNaN _ = False"

fun num_neg :: "jsnum \<Rightarrow> jsnum" where
  "num_neg (Fin a) = Fin (- a)"
| "num_neg PInf = NInf"
| "num_neg NInf = PInf"
| "num_neg NaN = NaN"

fun num_add :: "jsnum \<Rightarrow> jsnum \<Rightarrow> jsnum" where
  "num_add NaN _ = NaN"
| "num_add _ NaN = NaN"
| "num_add (Fin a) (Fin b) = Fin (a + b)"
| "num_add PInf NInf = NaN"
| "num_add NInf PInf = NaN"
| "num_add PInf _ = PInf"
| "num_add _ PInf = PInf"
| "num_add NInf _ = NInf"
| "num_add _ NInf = NInf"

definition num_sub :: "jsnum \<Rightarrow> jsnum \<Rightarrow> jsnum" where
  "num_sub a b = num_add a (num_neg b)"

text \<open>The sign of a number that is not \<open>NaN\<close>: \<open>-1\<close>, \<open>0\<close> or \<open>1\<close>.\<close>

fun num_sgn :: "jsnum \<Rightarrow> int" where
  "num_sgn (Fin a) = (if a < 0 then - 1 else if a = 0 then 0 else 1)"
| "num_sgn PInf = 1"
| "num_sgn NInf = - 1"
| "num_sgn NaN = 0"

definition signedInf :: "int \<Rightarrow> jsnum" where
  "signedInf s = (if s < 0 then NInf else PInf)"

fun num_mul :: "jsnum \<Rightarrow> jsnum \<Rightarrow> jsnum" where
  "num_mul NaN _ = NaN"
| "num_mul _ NaN = NaN"
| "num_mul (Fin a) (Fin b) = Fin (a * b)"
| "num_mul a b =
     (if num_sgn a = 0 \<or> num_sgn b = 0 then NaN else signedInf (num_sgn a * num_sgn b))"

text \<open>Division; a zero divisor is taken as the positive zero.\<close>

fun num_div :: "jsnum \<Rightarrow> jsnum \<Rightarrow> jsnum" where
  "num_div NaN _ = NaN"
| "num_div _ NaN = NaN"
| "num_div (Fin a) (Fin b) =
     (if b \<noteq> 0 then Fin (a / b) else if a = 0 then NaN else signedInf (num_sgn (Fin a)))"
| "num_div (Fin a) _ = Fin 0"
| "num_div a (Fin b) = signedInf (num_sgn a * (if b < 0 then - 1 else 1))"
| "num_div _ _ = NaN"

text \<open>\<open>x || 0\<close> on a number: zero and \<open>NaN\<close> are falsy.\<close>

definition or0 :: "jsnum \<Rightarrow> jsnum" where
  "or0 x = (if x = NaN \<or> x = Fin 0 then Fin 0 else x)"

definition gt0 :: "jsnum \<Rightarrow> bool" where
  "gt0 x = (num_sgn x = 1)"

text \<open>\<open>a <= b\<close> on numbers; false when either is \<open>NaN\<close>.\<close>

fun num_le :: "jsnum \<Rightarrow> jsnum \<Rightarrow> bool" where
  "num_le NaN _ = False"
| "num_le _ NaN = False"
| "num_le (Fin a) (Fin b) = (a \<le> b)"
| "num_le NInf _ = True"
| "num_le _ PInf = True"
| "num_le _ _ = False"

subsection \<open>Reading numbers from strings\<close>

definition startsWith :: "string \<Rightarrow> string \<Rightarrow> bool" where
  "startsWith s p = (take (length p) s = p)"

definition pow10 :: "int \<Rightarrow> rat" where
  "pow10 e = (if 0 \<le> e then 10 ^ nat e else 1 / 10 ^ nat (- e))"

text \<open>The exponent part at the head of \<open>r\<close>, if there is one, and what follows it.\<close>

definition parseExponent :: "string \<Rightarrow> int \<times> string" where
  "parseExponent r =
     (if startsWith r ''e'' \<or> startsWith r ''E'' then
        (let cs = drop 1 r;
             sg = (if startsWith cs ''-'' then - 1 else 1);
             ds = (if startsWith cs ''-'' \<or> startsWith cs ''+'' then drop 1 cs else cs);
             digs = takeWhile isDigit ds
         in if digs = [] then (0, r) else (sg * digitsVal digs, dropWhile isDigit ds))
      else (0, r))"

text \<open>
  The longest prefix of \<open>s\<close> that is an unsigned decimal literal
  (\<open>digits\<close>, \<open>digits.\<close>, \<open>digits.digits\<close>, \<open>.digits\<close>, each with an optional exponent),
  with its value and the rest of the string.
\<close>

definition parseDecimal :: "string \<Rightarrow> (rat \<times> string) option" where
  "parseDecimal s =
     (let ip = takeWhile isDigit s;
          r1 = dropWhile isDigit s;
          hasDot = startsWith r1 ''.'';
          fp = (if hasDot then takeWhile isDigit (drop 1 r1) else []);
          r2 = (if hasDot then dropWhile isDigit (drop 1 r1) else r1)
      in if ip = [] \<and> fp = [] then None
         else (let m = of_int (digitsVal ip) + of_int (digitsVal fp) / 10 ^ length fp;
                   er = parseExponent r2
               in Some (m * pow10 (fst er), snd er)))"

definition signOf :: "string \<Rightarrow> rat \<times> string" where
  "signOf t =
     (if startsWith t ''-'' then (- 1, drop 1 t)
      else if startsWith t ''+'' then (1, drop 1 t) else (1, t))"

text \<open>\<open>Number.parseFloat(s)\<close>: leading white space is skipped, trailing text ignored.\<close>

definition parseFloat :: "string \<Rightarrow> jsnum" where
  "parseFloat s =
     (let su = signOf (trimStart s) in
      if startsWith (snd su) ''Infinity'' then (if fst su < 0 then NInf else PInf)
      else (case parseDecimal (snd su) of
              None \<Rightarrow> NaN
            | Some (v, rest) \<Rightarrow> Fin (fst su * v)))"

definition radixDigit :: "char \<Rightarrow> int" where
  "radixDigit c =
     (let n = (of_char c :: int) in
      if 48 \<le> n \<and> n \<le> 57 then n - 48
      else if 97 \<le> n \<and> n \<le> 102 then n - 87
      else if 65 \<le> n \<and> n \<le> 70 then n - 55
      else 16)"

definition parseRadix :: "int \<Rightarrow> string \<Rightarrow> jsnum" where
  "parseRadix b ds =
     (if ds \<noteq> [] \<and> list_all (\<lambda>c. radixDigit c < b) ds
      then Fin (of_int (foldl (\<lambda>a c. b * a + radixDigit c) 0 ds))
      else NaN)"

text \<open>
  \<open>Number(s)\<close> on a string: the whole trimmed string must be a numeric literal; the
  empty string is \<open>0\<close>.
\<close>

definition stringToNumber :: "string \<Rightarrow> jsnum" where
  "stringToNumber s =
     (let t = trim s in
      if t = [] then Fin 0
      else if startsWith t ''0x'' \<or> startsWith t ''0X'' then parseRadix 16 (drop 2 t)
      else if startsWith t ''0o'' \<or> startsWith t ''0O'' then parseRadix 8 (drop 2 t)
      else if startsWith t ''0b'' \<or> startsWith t ''0B'' then parseRadix 2 (drop 2 t)
      else (let su = signOf t in
            if snd su = ''Infinity'' then (if fst su < 0 then NInf else PInf)
            else (case parseDecimal (snd su) of
                    None \<Rightarrow> NaN
                  | Some (v, rest) \<Rightarrow> if rest = [] then Fin (fst su * v) else NaN)))"

section \<open>Tabular parser\<close>

text \<open>
  \<open>parseFile\<close> of \<open>likert-chart.tsx\<close>, branch \<open>fileType === "csv"\<close>. The other
  branch hands the file to the XLSX library and is not modelled.
  \<open>values[index]?.trim() || ""\<close> is \<open>fieldAt\<close>: a position past the end of the split
  line reads \<open>undefined\<close> and yields the empty string. \<open>obj[header] = ...\<close> is an
  assignment of a string, so a header \<open>__proto__\<close> gives the row no key.
\<close>

type_synonym DataItem = "string obj"

definition fieldAt :: "string list \<Rightarrow> nat \<Rightarrow> string" where
  "fieldAt vals i = (if i < length vals then trim (vals ! i) else [])"

definition rowOf :: "string list \<Rightarrow> string \<Rightarrow> DataItem" where
  "rowOf hs line =
     (let vals = split line '','' in
      foldl (\<lambda>ob (header, index). assign header (fieldAt vals index) ob) []
        (zip hs [0 ..< length hs]))"

definition someValue :: "DataItem \<Rightarrow> bool" where
  "someValue item = list_ex (\<lambda>v. v \<noteq> []) (map snd item)"

record parsed =
  headers :: "string list"
  data :: "DataItem list"

text \<open>\<open>split\<close> returns at least one string, so \<open>lines[0]\<close> is always there.\<close>

definition parseFile :: "string \<Rightarrow> parsed" where
  "parseFile result =
     (case split result [CHR 0x0A] of
        [] \<Rightarrow> \<lparr> headers = [], data = [] \<rparr>
      | l # ls \<Rightarrow>
          (let hs = map trim (split l '','')
           in \<lparr> headers = hs, data = filter someValue (map (rowOf hs) ls) \<rparr>))"

section \<open>Group aggregator\<close>

text \<open>
  \<open>processData\<close> of \<open>likert-chart.tsx\<close> (the component that reads the file itself),
  with the filter of its first statement. \<open>values.includes(item[column])\<close> holds for an
  own string only: neither \<open>undefined\<close> nor an inherited member is in a list of strings.
\<close>

definition passesFilters :: "string list obj \<Rightarrow> DataItem \<Rightarrow> bool" where
  "passesFilters filters item =
     list_all (\<lambda>(column, values).
        if values = [] then True
        else (case map_of item column of None \<Rightarrow> False | Some v \<Rightarrow> v \<in> set values))
       (entries filters)"

text \<open>The entry \<open>{ total, counts }\<close> of a condition; \<open>g_total\<close> is its \<open>total\<close>.\<close>

record group =
  g_total :: nat
  counts :: "jsnum obj"

text \<open>
  \<open>counts[col]\<close> read as a number: an absent key reads \<open>undefined\<close> or an inherited
  member, which gives \<open>NaN\<close> in a division.
\<close>

definition getCount :: "jsnum obj \<Rightarrow> string \<Rightarrow> jsnum" where
  "getCount cs col = (case map_of cs col of None \<Rightarrow> NaN | Some n \<Rightarrow> n)"

text \<open>
  One round of the inner \<open>selectedColumns.forEach\<close> for a condition that has an entry.
  Every selected column but \<open>__proto__\<close> was given a count when the entry was created,
  so \<open>counts[col] += x\<close> adds to a number; for \<open>__proto__\<close> the sum is assigned to the
  inherited setter and lost. An inherited member read as the cell is truthy and
  \<open>parseFloat\<close> of it is \<open>NaN\<close>.
\<close>

definition addCell :: "DataItem \<Rightarrow> jsnum obj \<Rightarrow> string \<Rightarrow> jsnum obj" where
  "addCell item cs col =
     (case readProp item col of
        Own value \<Rightarrow>
          if value \<noteq> [] then
            (let numValue = parseFloat value in
             if \<not> isNaN numValue then assign col (num_add (getCount cs col) numValue) cs
             else assign col (num_add (getCount cs col) (Fin 1)) cs)
          else cs
      | Member \<Rightarrow> assign col (num_add (getCount cs col) (Fin 1)) cs
      | Undefined \<Rightarrow> cs)"

definition newGroup :: "string list \<Rightarrow> group" where
  "newGroup selectedColumns =
     \<lparr> g_total = 0, counts = foldl (\<lambda>cs col. assign col (Fin 0) cs) [] selectedColumns \<rparr>"

text \<open>
  One round of \<open>conditions.forEach\<close>. When the condition names an inherited member and
  has no entry, \<open>conditionCounts[condition]\<close> is that member: no entry is created,
  \<open>total++\<close> goes to the member, and the first selected column with a truthy cell reads
  \<open>counts\<close> of the member, which is \<open>undefined\<close>, and throws.
\<close>

definition addCondition ::
  "string list \<Rightarrow> DataItem \<Rightarrow> group obj \<Rightarrow> string \<Rightarrow> error + group obj" where
  "addCondition selectedColumns item cc condition =
     (case readProp cc condition of
        Member \<Rightarrow>
          if list_ex (\<lambda>col. truthyRead (readProp item col)) selectedColumns then Inl TypeError
          else Inr cc
      | Own g \<Rightarrow>
          Inr (AList.update condition
                 \<lparr> g_total = g_total g + 1,
                   counts = foldl (addCell item) (counts g) selectedColumns \<rparr> cc)
      | Undefined \<Rightarrow>
          Inr (AList.update condition
                 \<lparr> g_total = g_total (newGroup selectedColumns) + 1,
                   counts = foldl (addCell item) (counts (newGroup selectedColumns))
                              selectedColumns \<rparr> cc))"

text \<open>
  One round of \<open>filteredData.forEach\<close>. An inherited member read as the condition value
  is truthy and has no \<open>split\<close>: the call throws.
\<close>

definition addItem ::
  "string \<Rightarrow> string list \<Rightarrow> group obj \<Rightarrow> DataItem \<Rightarrow> error + group obj" where
  "addItem conditionColumn selectedColumns cc item =
     (case readProp item conditionColumn of
        Own value \<Rightarrow>
          if value = [] then Inr cc
          else forEach (addCondition selectedColumns item) cc (split value '', '')
      | Member \<Rightarrow> Inl TypeError
      | Undefined \<Rightarrow> Inr cc)"

definition conditionCounts ::
  "DataItem list \<Rightarrow> string \<Rightarrow> string list \<Rightarrow> string list obj \<Rightarrow> error + group obj" where
  "conditionCounts rows conditionColumn selectedColumns filters =
     forEach (addItem conditionColumn selectedColumns) []
       (filter (passesFilters filters) rows)"

text \<open>A field of an emitted record: the condition label or a number.\<close>

datatype field = S string | N jsnum

text \<open>
  \<open>data[0]?.[col] || ""\<close> as the argument of \<open>parseFloat\<close>. An inherited member read
  here does not parse, as the empty string does not.
\<close>

definition firstValue :: "DataItem list \<Rightarrow> string \<Rightarrow> string" where
  "firstValue rows col =
     (case rows of [] \<Rightarrow> []
      | item # _ \<Rightarrow> (case map_of item col of None \<Rightarrow> [] | Some v \<Rightarrow> v))"

definition isNumeric :: "DataItem list \<Rightarrow> string \<Rightarrow> bool" where
  "isNumeric rows col = (\<not> isNaN (parseFloat (firstValue rows col)))"

definition reported :: "DataItem list \<Rightarrow> group \<Rightarrow> string \<Rightarrow> jsnum" where
  "reported rows g col =
     (if isNumeric rows col
      then or0 (num_div (getCount (counts g) col) (Fin (of_nat (g_total g))))
      else or0 (num_mul (num_div (getCount (counts g) col) (Fin (of_nat (g_total g)))) (Fin 100)))"

text \<open>
  The object literal \<open>{condition, ...Object.fromEntries(pairs)}\<close>: the spread copies the
  entries over the \<open>condition\<close> key. Both define own properties, also for the key
  \<open>__proto__\<close>.
\<close>

definition fromEntries :: "(string \<times> 'v) list \<Rightarrow> 'v obj" where
  "fromEntries kvs = foldl (\<lambda>ob (k, v). AList.update k v ob) [] kvs"

definition mkRecord :: "DataItem list \<Rightarrow> string list \<Rightarrow> string \<times> group \<Rightarrow> field obj" where
  "mkRecord rows selectedColumns cg =
     foldl (\<lambda>ob (k, v). AList.update k v ob) [(''condition'', S (fst cg))]
       (entries (fromEntries
          (map (\<lambda>col. (col, N (reported rows (snd cg) col))) selectedColumns)))"

text \<open>
  \<open>a[selectedColumns[0]] || 0\<close> as an operand of the subtraction; with no selected
  column the key is \<open>undefined\<close>, which no record has.
\<close>

definition sortValue :: "string list \<Rightarrow> field obj \<Rightarrow> jsnum" where
  "sortValue selectedColumns a =
     (case selectedColumns of
        [] \<Rightarrow> Fin 0
      | col # _ \<Rightarrow>
          (case map_of a col of
             None \<Rightarrow> Fin 0
           | Some (N n) \<Rightarrow> or0 n
           | Some (S s) \<Rightarrow> if s = [] then Fin 0 else stringToNumber s))"

definition byFirstMeasure :: "string list \<Rightarrow> field obj \<Rightarrow> field obj \<Rightarrow> bool" where
  "byFirstMeasure selectedColumns a b =
     gt0 (num_sub (sortValue selectedColumns b) (sortValue selectedColumns a))"

definition processData ::
  "DataItem list \<Rightarrow> string \<Rightarrow> string list \<Rightarrow> string list obj \<Rightarrow> error + field obj list" where
  "processData rows conditionColumn selectedColumns filters =
     (if rows = [] then Inr []
      else (case conditionCounts rows conditionColumn selectedColumns filters of
              Inl e \<Rightarrow> Inl e
            | Inr cc \<Rightarrow>
                Inr (take 20
                       (sortBy (byFirstMeasure selectedColumns)
                          (map (mkRecord rows selectedColumns) (entries cc))))))"

text \<open>
  \<open>countConditions\<close> of \<open>medical-data-chart.tsx\<close>. A count is a number, or a text:
  \<open>(counts[c] || 0) + 1\<close> on an inherited member or on a text is a string
  concatenation. For the condition \<open>__proto__\<close> the text is assigned to the inherited
  setter and lost.
\<close>

datatype cnt = Cnt nat | Txt

definition bump :: "cnt obj \<Rightarrow> string \<Rightarrow> cnt obj" where
  "bump cnts condition =
     (case readProp cnts condition of
        Own (Cnt n) \<Rightarrow> assign condition (Cnt (n + 1)) cnts
      | Own Txt \<Rightarrow> assign condition Txt cnts
      | Member \<Rightarrow> assign condition Txt cnts
      | Undefined \<Rightarrow> assign condition (Cnt 1) cnts)"

definition countItem :: "cnt obj \<Rightarrow> DataItem \<Rightarrow> cnt obj" where
  "countItem cnts item =
     (if truthy (map_of item ''Condition'')
      then foldl bump cnts (split (the (map_of item ''Condition'')) '', '')
      else cnts)"

text \<open>
  \<open>b[1] - a[1]\<close> is \<open>NaN\<close> when either count is a text, which keeps the order of the two.
  With a text among unequal numbers the comparator is not consistent and the language
  leaves the order to the engine; the model is the stable sort there too.
\<close>

fun countAfter :: "string \<times> cnt \<Rightarrow> string \<times> cnt \<Rightarrow> bool" where
  "countAfter (_, Cnt x) (_, Cnt y) = (x < y)"
| "countAfter _ _ = False"

definition countConditions :: "DataItem list \<Rightarrow> (string \<times> cnt) list" where
  "countConditions rows =
     take 10 (sortBy countAfter (entries (foldl countItem [] rows)))"

section \<open>Two-category comparator\<close>

text \<open>
  \<open>processData\<close> of the second component of \<open>likert-chart.tsx\<close> (the one that takes
  \<open>headers\<close> and \<open>data\<close> as properties), here \<open>processData_cmp\<close>. Its filter trims the
  row's value and wants it non-empty.
\<close>

definition passesFiltersTrim :: "string list obj \<Rightarrow> DataItem \<Rightarrow> bool" where
  "passesFiltersTrim filters item =
     list_all (\<lambda>(column, values).
        if values = [] then True
        else (case map_of item column of
                None \<Rightarrow> False
              | Some v \<Rightarrow> trim v \<noteq> [] \<and> trim v \<in> set values))
       (entries filters)"

text \<open>
  \<open>Array.from(new Set(filteredData.map(item => item[responseColumn]))).filter(Boolean).sort()\<close>;
  the default sort orders strings by their code units.
\<close>

definition uniqueResponses :: "DataItem list \<Rightarrow> string \<Rightarrow> string list" where
  "uniqueResponses filteredData responseColumn =
     sort (map the (filter truthy (uniq (map (\<lambda>item. map_of item responseColumn) filteredData))))"

text \<open>The entry \<open>{ left, right, total }\<close> of a condition; \<open>s_total\<close> is its \<open>total\<close>.\<close>

record stat =
  left :: nat
  right :: nat
  s_total :: nat

definition tally :: "string \<Rightarrow> string \<Rightarrow> string \<Rightarrow> string \<Rightarrow> stat obj \<Rightarrow> DataItem \<Rightarrow> stat obj" where
  "tally conditionColumn responseColumn leftCategory rightCategory stats item =
     (if \<not> truthy (map_of item conditionColumn) \<or> \<not> truthy (map_of item responseColumn)
      then stats
      else
        (let condition = the (map_of item conditionColumn);
             response = the (map_of item responseColumn);
             st = (case map_of stats condition of
                     None \<Rightarrow> \<lparr> left = 0, right = 0, s_total = 0 \<rparr>
                   | Some st \<Rightarrow> st);
             st1 = st \<lparr> s_total := s_total st + 1 \<rparr>;
             st2 = (if response = leftCategory then st1 \<lparr> left := left st1 + 1 \<rparr>
                    else if response = rightCategory then st1 \<lparr> right := right st1 + 1 \<rparr>
                    else st1)
         in AList.update condition st2 stats))"

text \<open>An emitted record; \<open>r_total\<close> is its \<open>total\<close>.\<close>

record ProcessedDataItem =
  condition :: string
  leftValue :: int
  rightValue :: int
  leftLabel :: string
  rightLabel :: string
  r_total :: nat

record comparison =
  cmp_data :: "ProcessedDataItem list"
  cat_left :: string
  cat_right :: string

definition emptyResult :: comparison where
  "emptyResult = \<lparr> cmp_data = [], cat_left = [], cat_right = [] \<rparr>"

definition mkItem :: "string \<Rightarrow> string \<Rightarrow> string \<times> stat \<Rightarrow> ProcessedDataItem" where
  "mkItem leftCategory rightCategory cs =
     \<lparr> condition = fst cs,
       leftValue = - int (left (snd cs)),
       rightValue = int (right (snd cs)),
       leftLabel = leftCategory,
       rightLabel = rightCategory,
       r_total = s_total (snd cs) \<rparr>"

definition processData_cmp ::
  "DataItem list \<Rightarrow> string \<Rightarrow> string \<Rightarrow> string list obj \<Rightarrow> comparison" where
  "processData_cmp rows conditionColumn responseColumn filters =
     (if rows = [] \<or> responseColumn = [] then emptyResult
      else
        (let filteredData = filter (passesFiltersTrim filters) rows in
         case uniqueResponses filteredData responseColumn of
           leftCategory # rightCategory # _ \<Rightarrow>
             \<lparr> cmp_data =
                 sortBy (\<lambda>a b. int (r_total b) - int (r_total a) > 0)
                   (map (mkItem leftCategory rightCategory)
                      (entries (foldl (tally conditionColumn responseColumn
                                         leftCategory rightCategory) [] filteredData))),
               cat_left = leftCategory,
               cat_right = rightCategory \<rparr>
         | _ \<Rightarrow> emptyResult))"

section \<open>Pivot aggregator\<close>

text \<open>
  \<open>processData\<close> of \<open>pivot-chart.tsx\<close>, here \<open>processData_pivot\<close>. A cell of a row is a
  string or a number. \<open>String(x)\<close> on a number is the parameter \<open>numberToString\<close>.
\<close>

type_synonym PivotItem = "field obj"

record PivotConfig =
  cfg_rows :: "string list"
  cfg_columns :: "string list"
  cfg_values :: "string list"

definition String :: "(jsnum \<Rightarrow> string) \<Rightarrow> field option \<Rightarrow> string" where
  "String numberToString x =
     (case x of
        None \<Rightarrow> ''undefined''
      | Some (S s) \<Rightarrow> s
      | Some (N n) \<Rightarrow> numberToString n)"

definition Number :: "field option \<Rightarrow> jsnum" where
  "Number x =
     (case x of
        None \<Rightarrow> NaN
      | Some (S s) \<Rightarrow> stringToNumber s
      | Some (N n) \<Rightarrow> n)"

fun join :: "string list \<Rightarrow> string \<Rightarrow> string" where
  "join [] sep = []"
| "join [x] sep = x"
| "join (x # y # ys) sep = x @ sep @ join (y # ys) sep"

definition passesFiltersStr ::
  "(jsnum \<Rightarrow> string) \<Rightarrow> string list obj \<Rightarrow> PivotItem \<Rightarrow> bool" where
  "passesFiltersStr numberToString filters item =
     list_all (\<lambda>(column, values).
        if values = [] then True
        else String numberToString (map_of item column) \<in> set values)
       (entries filters)"

definition keyOf :: "(jsnum \<Rightarrow> string) \<Rightarrow> string list \<Rightarrow> PivotItem \<Rightarrow> string" where
  "keyOf numberToString cols item =
     join (map (\<lambda>col. String numberToString (map_of item col)) cols) ''|''"

text \<open>
  \<open>cell[index] += Number(item[value]) || 0\<close>. Every cell is created with one slot for each
  value column, so the index is in range; past the end JavaScript would read
  \<open>undefined\<close> and store \<open>NaN\<close>.
\<close>

definition addValue :: "PivotItem \<Rightarrow> jsnum list \<Rightarrow> string \<times> nat \<Rightarrow> jsnum list" where
  "addValue item cell vi =
     (if snd vi < length cell
      then cell[snd vi := num_add (cell ! snd vi) (or0 (Number (map_of item (fst vi))))]
      else cell @ replicate (snd vi - length cell) NaN @ [NaN])"

definition zeros :: "PivotConfig \<Rightarrow> jsnum list" where
  "zeros config = map (\<lambda>_. Fin 0) (cfg_values config)"

text \<open>
  The table is a plain object of plain objects, and the code looks rows and cells up
  through the prototype chain. For the row key \<open>__proto__\<close> the lookup
  \<open>pivotTable[rowKey]\<close> is \<open>Object.prototype\<close> itself: the cell is stored there, and from
  then on every plain object inherits it. \<open>own_rows\<close> holds the own properties of the
  table, \<open>shared\<close> the cells that the call has stored on \<open>Object.prototype\<close>.

  Some runs are left out, with the result \<open>Unmodelled\<close>: a run in which a row reads one
  of the columns of the filter or of the row and column keys through the prototype
  chain, one that takes a built-in function or a shared cell for a row of the table, and
  one that takes a built-in member for a cell.
\<close>

datatype stop = Unmodelled

record tables =
  own_rows :: "jsnum list obj obj"
  shared :: "jsnum list obj"

text \<open>\<open>item[k]\<close> is an own property or \<open>undefined\<close>.\<close>

definition readable :: "jsnum list obj \<Rightarrow> PivotItem \<Rightarrow> string \<Rightarrow> bool" where
  "readable sh item k = (map_of item k \<noteq> None \<or> (\<not> inherited k \<and> map_of sh k = None))"

text \<open>
  The loop over the value columns on one cell. \<open>Number\<close> of an inherited member is
  \<open>NaN\<close>, as that of \<open>undefined\<close>; a shared cell read as the value is left out.
\<close>

definition accumulate ::
  "PivotConfig \<Rightarrow> jsnum list obj \<Rightarrow> PivotItem \<Rightarrow> jsnum list \<Rightarrow> stop + jsnum list" where
  "accumulate config sh item cell =
     (if list_all (\<lambda>v. map_of item v \<noteq> None \<or> map_of sh v = None) (cfg_values config)
      then Inr (foldl (addValue item) cell
                  (zip (cfg_values config) [0 ..< length (cfg_values config)]))
      else Inl Unmodelled)"

text \<open>
  The cell of a row key whose lookup is \<open>Object.prototype\<close>: \<open>!pivotTable[rowKey][colKey]\<close>
  finds a shared cell or nothing, and a new cell is stored on \<open>Object.prototype\<close>.
\<close>

definition intoProto ::
  "PivotConfig \<Rightarrow> PivotItem \<Rightarrow> tables \<Rightarrow> string \<Rightarrow> stop + tables" where
  "intoProto config item tb colKey =
     (case map_of (shared tb) colKey of
        Some cell \<Rightarrow>
          (case accumulate config (shared tb) item cell of
             Inl e \<Rightarrow> Inl e
           | Inr cell' \<Rightarrow> Inr (tb \<lparr> shared := AList.update colKey cell' (shared tb) \<rparr>))
      | None \<Rightarrow>
          if inherited colKey then Inl Unmodelled
          else (case accumulate config (AList.update colKey (zeros config) (shared tb)) item
                       (zeros config) of
                  Inl e \<Rightarrow> Inl e
                | Inr cell' \<Rightarrow> Inr (tb \<lparr> shared := AList.update colKey cell' (shared tb) \<rparr>)))"

text \<open>
  The cell of a row key with the own row object \<open>rowObj\<close> (empty when it was just
  created): the lookup finds an own cell, else a shared cell, which is then the one
  that is added to, else nothing, and a new own cell is created.
\<close>

definition intoRow ::
  "PivotConfig \<Rightarrow> PivotItem \<Rightarrow> tables \<Rightarrow> string \<Rightarrow> jsnum list obj \<Rightarrow> string \<Rightarrow> stop + tables" where
  "intoRow config item tb rowKey rowObj colKey =
     (case map_of rowObj colKey of
        Some cell \<Rightarrow>
          (case accumulate config (shared tb) item cell of
             Inl e \<Rightarrow> Inl e
           | Inr cell' \<Rightarrow>
               Inr (tb \<lparr> own_rows :=
                          AList.update rowKey (AList.update colKey cell' rowObj) (own_rows tb) \<rparr>))
      | None \<Rightarrow>
          (case map_of (shared tb) colKey of
             Some cell \<Rightarrow>
               (case accumulate config (shared tb) item cell of
                  Inl e \<Rightarrow> Inl e
                | Inr cell' \<Rightarrow>
                    Inr \<lparr> own_rows = AList.update rowKey rowObj (own_rows tb),
                          shared = AList.update colKey cell' (shared tb) \<rparr>)
           | None \<Rightarrow>
               if inherited colKey then Inl Unmodelled
               else (case accumulate config (shared tb) item (zeros config) of
                       Inl e \<Rightarrow> Inl e
                     | Inr cell' \<Rightarrow>
                         Inr (tb \<lparr> own_rows :=
                                    AList.update rowKey (AList.update colKey cell' rowObj)
                                      (own_rows tb) \<rparr>))))"

text \<open>One round of \<open>filteredData.forEach\<close>.\<close>

definition pivotStep ::
  "(jsnum \<Rightarrow> string) \<Rightarrow> PivotConfig \<Rightarrow> tables \<Rightarrow> PivotItem \<Rightarrow> stop + tables" where
  "pivotStep numberToString config tb item =
     (if list_all (readable (shared tb) item) (cfg_rows config @ cfg_columns config)
      then
        (let rowKey = keyOf numberToString (cfg_rows config) item;
             colKey = keyOf numberToString (cfg_columns config) item
         in case map_of (own_rows tb) rowKey of
              Some rowObj \<Rightarrow> intoRow config item tb rowKey rowObj colKey
            | None \<Rightarrow>
                if rowKey = ''__proto__'' then intoProto config item tb colKey
                else if inherited rowKey \<or> map_of (shared tb) rowKey \<noteq> None then Inl Unmodelled
                else intoRow config item tb rowKey [] colKey)
      else Inl Unmodelled)"

record pivot =
  out_rows :: "string list"
  out_columns :: "string list"
  out_values :: "jsnum list list list"

text \<open>
  \<open>pivotTable[row]?.[col] || config.values.map(() => 0)\<close>; a cell is an array, which is
  truthy.
\<close>

definition protoCell :: "PivotConfig \<Rightarrow> tables \<Rightarrow> string \<Rightarrow> stop + jsnum list" where
  "protoCell config tb col =
     (case map_of (shared tb) col of
        Some cell \<Rightarrow> Inr cell
      | None \<Rightarrow> if inherited col then Inl Unmodelled else Inr (zeros config))"

definition cellOf :: "PivotConfig \<Rightarrow> tables \<Rightarrow> string \<Rightarrow> string \<Rightarrow> stop + jsnum list" where
  "cellOf config tb row col =
     (case map_of (own_rows tb) row of
        Some rowObj \<Rightarrow>
          (case map_of rowObj col of Some cell \<Rightarrow> Inr cell | None \<Rightarrow> protoCell config tb col)
      | None \<Rightarrow>
          if row = ''__proto__'' then protoCell config tb col
          else if inherited row \<or> map_of (shared tb) row \<noteq> None then Inl Unmodelled
          else Inr (zeros config))"

fun mapE :: "('a \<Rightarrow> 'e + 'b) \<Rightarrow> 'a list \<Rightarrow> 'e + 'b list" where
  "mapE f [] = Inr []"
| "mapE f (x # xs) =
     (case f x of
        Inl e \<Rightarrow> Inl e
      | Inr y \<Rightarrow> (case mapE f xs of Inl e \<Rightarrow> Inl e | Inr ys \<Rightarrow> Inr (y # ys)))"

text \<open>
  The filter and the two lists of keys are computed before the loop, when nothing is
  shared yet.
\<close>

definition processData_pivot ::
  "(jsnum \<Rightarrow> string) \<Rightarrow> PivotItem list \<Rightarrow> PivotConfig \<Rightarrow> string list obj \<Rightarrow> stop + pivot" where
  "processData_pivot numberToString rows config filters =
     (let filteredData = filter (passesFiltersStr numberToString filters) rows;
          uniqueRows = uniq (map (keyOf numberToString (cfg_rows config)) filteredData);
          uniqueColumns = uniq (map (keyOf numberToString (cfg_columns config)) filteredData)
      in if list_all (\<lambda>item. list_all (readable [] item) (map fst filters)) rows
            \<and> list_all (\<lambda>item. list_all (readable [] item)
                              (cfg_rows config @ cfg_columns config)) filteredData
         then
           (case forEach (pivotStep numberToString config) \<lparr> own_rows = [], shared = [] \<rparr>
                   filteredData of
              Inl e \<Rightarrow> Inl e
            | Inr tb \<Rightarrow>
                (case mapE (\<lambda>row. mapE (cellOf config tb row) uniqueColumns) uniqueRows of
                   Inl e \<Rightarrow> Inl e
                 | Inr cells \<Rightarrow>
                     Inr \<lparr> out_rows = uniqueRows, out_columns = uniqueColumns,
                           out_values = cells \<rparr>))
         else Inl Unmodelled)"

section \<open>Notions used to state the properties\<close>

text \<open>
  The filter as the specification words it: for every column with a non-empty allow-set
  the trimmed value of the row is a member of the set.
\<close>

definition passesSpec :: "string list obj \<Rightarrow> DataItem \<Rightarrow> bool" where
  "passesSpec filters item =
     list_all (\<lambda>(column, values).
        values = [] \<or> (case map_of item column of None \<Rightarrow> False | Some v \<Rightarrow> trim v \<in> set values))
       filters"




text \<open>A row belongs to the cell of a row key and a column key when its two keys are these.\<close>

definition matching ::
  "(jsnum \<Rightarrow> string) \<Rightarrow> PivotConfig \<Rightarrow> string \<Rightarrow> string \<Rightarrow> PivotItem \<Rightarrow> bool" where
  "matching numberToString config rowKey colKey item =
     (keyOf numberToString (cfg_rows config) item = rowKey
      \<and> keyOf numberToString (cfg_columns config) item = colKey)"

text \<open>
  The sum of \<open>Number(cell) || 0\<close> over rows for one value column, added up from zero
  in the order of the rows.
\<close>

definition cellSum :: "PivotItem list \<Rightarrow> string \<Rightarrow> jsnum" where
  "cellSum items v = foldl num_add (Fin 0) (map (\<lambda>item. or0 (Number (map_of item v))) items)"

text \<open>The condition tokens of a row: none when the condition value is missing or empty.\<close>

definition conditionsOf :: "string \<Rightarrow> DataItem \<Rightarrow> string list" where
  "conditionsOf conditionColumn item =
     (if truthy (map_of item conditionColumn)
      then split (the (map_of item conditionColumn)) '', '' else [])"

text \<open>The entry of a condition, or the entry it is created with.\<close>

definition groupAt :: "string list \<Rightarrow> group obj \<Rightarrow> string \<Rightarrow> group" where
  "groupAt selectedColumns cc c =
     (case map_of cc c of None \<Rightarrow> newGroup selectedColumns | Some g \<Rightarrow> g)"

text \<open>The total of a condition, zero when it has no entry.\<close>

definition totalOf :: "group obj \<Rightarrow> string \<Rightarrow> nat" where
  "totalOf cc c = (case map_of cc c of None \<Rightarrow> 0 | Some g \<Rightarrow> g_total g)"

text \<open>
  What one visit of a cell adds to the accumulator of its column: nothing for a missing
  or empty cell, the parsed number when the cell parses, one otherwise (also for an
  inherited member read as the cell). Nothing is ever added for the column \<open>__proto__\<close>.
\<close>

definition cellContribution :: "DataItem \<Rightarrow> string \<Rightarrow> jsnum list" where
  "cellContribution item col =
     (if col = ''__proto__'' then []
      else (case readProp item col of
              Own value \<Rightarrow>
                if value = [] then []
                else if isNaN (parseFloat value) then [Fin 1] else [parseFloat value]
            | Member \<Rightarrow> [Fin 1]
            | Undefined \<Rightarrow> []))"

text \<open>
  What a row adds to the accumulator of the condition \<open>c\<close> and the column \<open>col\<close>: the
  contribution of its cell, once for every occurrence of \<open>c\<close> among its tokens and of
  \<open>col\<close> among the selected columns.
\<close>

definition rowContribution ::
  "string \<Rightarrow> string list \<Rightarrow> string \<Rightarrow> string \<Rightarrow> DataItem \<Rightarrow> jsnum list" where
  "rowContribution conditionColumn selectedColumns c col item =
     concat (replicate (count_list (conditionsOf conditionColumn item) c)
       (concat (replicate (count_list selectedColumns col) (cellContribution item col))))"

text \<open>The accumulator and the total of a condition over a list of rows.\<close>

definition groupAcc ::
  "DataItem list \<Rightarrow> string \<Rightarrow> string list \<Rightarrow> string \<Rightarrow> string \<Rightarrow> jsnum" where
  "groupAcc members conditionColumn selectedColumns c col =
     foldl num_add (Fin 0)
       (concat (map (rowContribution conditionColumn selectedColumns c col) members))"

definition groupTotal :: "DataItem list \<Rightarrow> string \<Rightarrow> string \<Rightarrow> nat" where
  "groupTotal members conditionColumn c =
     sum_list (map (\<lambda>item. count_list (conditionsOf conditionColumn item) c) members)"

text \<open>
  The reported value as the specification words it: for a numeric column the sum of the
  parsed values of the group's rows over the total, otherwise the number of the group's
  rows with a non-empty value over the total, times 100.
\<close>

definition specSum :: "DataItem list \<Rightarrow> string \<Rightarrow> string \<Rightarrow> string \<Rightarrow> jsnum" where
  "specSum members conditionColumn c col =
     foldl num_add (Fin 0)
       (map (\<lambda>item. parseFloat (the (map_of item col)))
          (filter (\<lambda>item. c \<in> set (conditionsOf conditionColumn item)
                     \<and> truthy (map_of item col)
                     \<and> \<not> isNaN (parseFloat (the (map_of item col)))) members))"

definition specCount :: "DataItem list \<Rightarrow> string \<Rightarrow> string \<Rightarrow> string \<Rightarrow> nat" where
  "specCount members conditionColumn c col =
     length (filter (\<lambda>item. c \<in> set (conditionsOf conditionColumn item)
                       \<and> truthy (map_of item col)) members)"

definition specReported ::
  "DataItem list \<Rightarrow> DataItem list \<Rightarrow> string \<Rightarrow> string \<Rightarrow> string \<Rightarrow> jsnum" where
  "specReported rows members conditionColumn c col =
     (if isNumeric rows col
      then num_div (specSum members conditionColumn c col)
             (Fin (of_nat (groupTotal members conditionColumn c)))
      else num_mul
             (num_div (Fin (of_nat (specCount members conditionColumn c col)))
                (Fin (of_nat (groupTotal members conditionColumn c))))
             (Fin 100))"

text \<open>
  The ranking as the specification words it: the groups are taken in the order of their
  first appearance before the stable sort.
\<close>

definition rankedByFirstAppearance ::
  "DataItem list \<Rightarrow> string \<Rightarrow> string list \<Rightarrow> string list obj \<Rightarrow> error + field obj list" where
  "rankedByFirstAppearance rows conditionColumn selectedColumns filters =
     (if rows = [] then Inr []
      else (case conditionCounts rows conditionColumn selectedColumns filters of
              Inl e \<Rightarrow> Inl e
            | Inr cc \<Rightarrow>
                Inr (take 20
                       (sortBy (byFirstMeasure selectedColumns)
                          (map (mkRecord rows selectedColumns) cc)))))"

text \<open>
  The group aggregator meets no inherited member where it looks for a condition: no
  filtered row reads its condition value from one, and no condition token names one.
\<close>

definition ownConditions :: "DataItem list \<Rightarrow> string \<Rightarrow> string list obj \<Rightarrow> bool" where
  "ownConditions rows conditionColumn filters =
     list_all (\<lambda>item. readProp item conditionColumn \<noteq> Member
                      \<and> list_all (\<lambda>t. \<not> inherited t) (conditionsOf conditionColumn item))
       (filter (passesFilters filters) rows)"

text \<open>
  The table as the specification words it: a dictionary of dictionaries in which a cell
  is found only where one was stored for the very pair of keys, and a pair without a cell
  gives the zeros.
\<close>

definition specStep ::
  "(jsnum \<Rightarrow> string) \<Rightarrow> PivotConfig \<Rightarrow> jsnum list obj obj \<Rightarrow> PivotItem \<Rightarrow> jsnum list obj obj" where
  "specStep numberToString config pivotTable item =
     (let rowKey = keyOf numberToString (cfg_rows config) item;
          colKey = keyOf numberToString (cfg_columns config) item;
          rowObj = (case map_of pivotTable rowKey of None \<Rightarrow> [] | Some r \<Rightarrow> r);
          cell = (case map_of rowObj colKey of None \<Rightarrow> zeros config | Some c \<Rightarrow> c)
      in AList.update rowKey
           (AList.update colKey
              (foldl (addValue item) cell
                 (zip (cfg_values config) [0 ..< length (cfg_values config)]))
              rowObj)
           pivotTable)"

definition specCell :: "PivotConfig \<Rightarrow> jsnum list obj obj \<Rightarrow> string \<Rightarrow> string \<Rightarrow> jsnum list" where
  "specCell config pivotTable row col =
     (case map_of pivotTable row of
        None \<Rightarrow> zeros config
      | Some rowObj \<Rightarrow> (case map_of rowObj col of None \<Rightarrow> zeros config | Some c \<Rightarrow> c))"

definition specPivot ::
  "(jsnum \<Rightarrow> string) \<Rightarrow> PivotItem list \<Rightarrow> PivotConfig \<Rightarrow> string list obj \<Rightarrow> pivot" where
  "specPivot numberToString rows config filters =
     (let filteredData = filter (passesFiltersStr numberToString filters) rows;
          uniqueRows = uniq (map (keyOf numberToString (cfg_rows config)) filteredData);
          uniqueColumns = uniq (map (keyOf numberToString (cfg_columns config)) filteredData);
          pivotTable = foldl (specStep numberToString config) [] filteredData
      in \<lparr> out_rows = uniqueRows,
           out_columns = uniqueColumns,
           out_values =
             map (\<lambda>row. map (\<lambda>col. specCell config pivotTable row col) uniqueColumns) uniqueRows \<rparr>)"

text \<open>
  The pivot aggregator meets no inherited member: no row column, column column or
  filtered column names one, and no row key or column key of a filtered row does.
\<close>

definition ownKeysOnly ::
  "(jsnum \<Rightarrow> string) \<Rightarrow> PivotItem list \<Rightarrow> PivotConfig \<Rightarrow> string list obj \<Rightarrow> bool" where
  "ownKeysOnly numberToString rows config filters =
     (list_all (\<lambda>k. \<not> inherited k) (cfg_rows config @ cfg_columns config @ map fst filters)
      \<and> list_all (\<lambda>item. \<not> inherited (keyOf numberToString (cfg_rows config) item)
                        \<and> \<not> inherited (keyOf numberToString (cfg_columns config) item))
           (filter (passesFiltersStr numberToString filters) rows))"

section \<open>Basic facts\<close>

subsection \<open>Splitting, objects, sorting\<close>

lemma splitOn_not_Nil: "splitOn sep acc s \<noteq> []"
  by (induction sep acc s rule: splitOn.induct) auto

lemma split_not_Nil: "sep \<noteq> [] \<Longrightarrow> split s sep \<noteq> []"
  by (simp add: split_def splitOn_not_Nil)

lemma set_entries: "set (entries ob) = set ob"
  by (auto simp: entries_def)

lemma length_entries: "length (entries ob) = length ob"
  by (simp add: entries_def sum_length_filter_compl)

lemma distinct_entries: "distinct (map fst ob) \<Longrightarrow> distinct (map fst (entries ob))"
  by (auto simp: entries_def distinct_map_filter distinct_map inj_on_def)

lemma map_of_entries: "distinct (map fst ob) \<Longrightarrow> map_of (entries ob) = map_of ob"
  by (rule map_of_inject_set[THEN iffD2]) (simp_all add: distinct_entries set_entries)

lemma entries_no_index: "\<forall>k \<in> fst ` set ob. \<not> isArrayIndex k \<Longrightarrow> entries ob = ob"
  by (simp add: entries_def filter_empty_conv[THEN iffD2] filter_id_conv[THEN iffD2])

lemma length_insertBy: "length (insertBy after x xs) = Suc (length xs)"
  by (induction xs) simp_all

lemma length_sortBy: "length (sortBy after xs) = length xs"
  by (induction xs) (simp_all add: sortBy_def length_insertBy)

lemma set_insertBy: "set (insertBy after x xs) = insert x (set xs)"
  by (induction xs) auto

lemma set_sortBy: "set (sortBy after xs) = set xs"
  by (induction xs) (simp_all add: sortBy_def set_insertBy)

lemma sorted_insertBy:
  assumes asym: "\<forall>a\<in>A. \<forall>b\<in>A. after a b \<longrightarrow> \<not> after b a"
    and trans: "\<forall>a\<in>A. \<forall>b\<in>A. \<forall>c\<in>A. \<not> after a b \<longrightarrow> \<not> after b c \<longrightarrow> \<not> after a c"
    and x: "x \<in> A"
  shows "set xs \<subseteq> A \<Longrightarrow> sorted_wrt (\<lambda>a b. \<not> after a b) xs
           \<Longrightarrow> sorted_wrt (\<lambda>a b. \<not> after a b) (insertBy after x xs)"
proof (induction xs)
  case Nil
  then show ?case by simp
next
  case (Cons y ys)
  have y: "y \<in> A" and ys: "set ys \<subseteq> A" using Cons.prems(1) by simp_all
  have sy: "\<forall>z\<in>set ys. \<not> after y z" and sys: "sorted_wrt (\<lambda>a b. \<not> after a b) ys"
    using Cons.prems(2) by simp_all
  show ?case
  proof (cases "after x y")
    case True
    have "sorted_wrt (\<lambda>a b. \<not> after a b) (insertBy after x ys)"
      using Cons.IH ys sys by blast
    moreover have "\<not> after y x" using True asym x y by blast
    ultimately show ?thesis using True sy by (simp add: set_insertBy)
  next
    case False
    have "\<forall>z\<in>set ys. \<not> after x z"
    proof
      fix z assume z: "z \<in> set ys"
      then have "\<not> after y z" using sy by blast
      moreover have "z \<in> A" using z ys by blast
      ultimately show "\<not> after x z" using False trans x y by blast
    qed
    with False sy sys show ?thesis by simp
  qed
qed

lemma sorted_sortBy:
  assumes asym: "\<forall>a\<in>A. \<forall>b\<in>A. after a b \<longrightarrow> \<not> after b a"
    and trans: "\<forall>a\<in>A. \<forall>b\<in>A. \<forall>c\<in>A. \<not> after a b \<longrightarrow> \<not> after b c \<longrightarrow> \<not> after a c"
  shows "set xs \<subseteq> A \<Longrightarrow> sorted_wrt (\<lambda>a b. \<not> after a b) (sortBy after xs)"
proof (induction xs)
  case Nil
  then show ?case by (simp add: sortBy_def)
next
  case (Cons x xs)
  have "sorted_wrt (\<lambda>a b. \<not> after a b) (sortBy after xs)"
    using Cons by simp
  moreover have "x \<in> A" "set (sortBy after xs) \<subseteq> A"
    using Cons.prems by (simp_all add: set_sortBy)
  ultimately have "sorted_wrt (\<lambda>a b. \<not> after a b) (insertBy after x (sortBy after xs))"
    using sorted_insertBy[OF asym trans] by blast
  then show ?case by (simp add: sortBy_def)
qed

lemma filter_insertBy:
  assumes "\<And>y. P x \<Longrightarrow> after x y \<Longrightarrow> \<not> P y"
  shows "filter P (insertBy after x xs) = (if P x then x # filter P xs else filter P xs)"
  using assms by (induction xs) auto

lemma stable_sortBy:
  assumes "\<And>x y. P x \<Longrightarrow> after x y \<Longrightarrow> \<not> P y"
  shows "filter P (sortBy after xs) = filter P xs"
  using assms by (induction xs) (simp_all add: sortBy_def filter_insertBy)

lemma set_uniq_aux: "set (foldl (\<lambda>acc x. if x \<in> set acc then acc else acc @ [x]) a xs) = set a \<union> set xs"
  by (induction xs arbitrary: a) auto

lemma distinct_uniq_aux: "distinct a \<Longrightarrow> distinct (foldl (\<lambda>acc x. if x \<in> set acc then acc else acc @ [x]) a xs)"
  by (induction xs arbitrary: a) auto

lemma set_uniq: "set (uniq xs) = set xs"
  by (simp add: uniq_def set_uniq_aux)

lemma distinct_uniq: "distinct (uniq xs)"
  by (simp add: uniq_def distinct_uniq_aux)

subsection \<open>Assignments to an object in a loop\<close>

lemma keys_update: "set (map fst (AList.update k v al)) = insert k (set (map fst al))"
  by (auto simp: update_keys)

lemma keys_foldl_update:
  "set (map fst (foldl (\<lambda>ob (h, i). AList.update h (f i) ob) ob ps))
     = set (map fst ob) \<union> set (map fst ps)"
proof (induction ps arbitrary: ob)
  case Nil
  then show ?case by simp
next
  case (Cons p ps)
  obtain h i where p: "p = (h, i)" by (cases p)
  show ?case unfolding p by (simp add: Cons.IH keys_update del: set_map)
qed

lemma distinct_foldl_update:
  "distinct (map fst ob) \<Longrightarrow> distinct (map fst (foldl (\<lambda>ob (h, i). AList.update h (f i) ob) ob ps))"
  by (induction ps arbitrary: ob) (auto simp: distinct_update)

lemma map_of_foldl_update:
  "(k, j) \<in> set ps \<Longrightarrow> \<forall>(h, i) \<in> set ps. h = k \<longrightarrow> f i = v
     \<Longrightarrow> map_of (foldl (\<lambda>ob (h, i). AList.update h (f i) ob) ob ps) k = Some v"
proof (induction ps arbitrary: ob rule: rev_induct)
  case Nil
  then show ?case by simp
next
  case (snoc p ps)
  obtain h i where p: "p = (h, i)" by (cases p)
  show ?case
  proof (cases "h = k")
    case True
    with snoc.prems(2) p have "f i = v" by auto
    with True p show ?thesis by (simp add: update_conv')
  next
    case False
    with snoc.prems p have "(k, j) \<in> set ps" "\<forall>(h, i) \<in> set ps. h = k \<longrightarrow> f i = v" by auto
    then have "map_of (foldl (\<lambda>ob (h, i). AList.update h (f i) ob) ob ps) k = Some v"
      by (rule snoc.IH)
    with False p show ?thesis by (simp add: update_conv')
  qed
qed

text \<open>
  An object that has no own \<open>__proto__\<close> and is only assigned strings or numbers never
  gets one: the assignments to \<open>__proto__\<close> can be left out.
\<close>

lemma foldl_assign_filter:
  "map_of ob ''__proto__'' = None \<Longrightarrow>
     foldl (\<lambda>ob (h, i). assign h (f i) ob) ob ps
       = foldl (\<lambda>ob (h, i). AList.update h (f i) ob) ob
           (filter (\<lambda>p. fst p \<noteq> ''__proto__'') ps)"
proof (induction ps arbitrary: ob)
  case Nil
  then show ?case by simp
next
  case (Cons p ps)
  obtain h i where p: "p = (h, i)" by (cases p)
  show ?case
  proof (cases "h = ''__proto__''")
    case True
    with Cons.prems have "assign h (f i) ob = ob" by (simp add: assign_def)
    with True p Cons show ?thesis by simp
  next
    case False
    then have a: "assign h (f i) ob = AList.update h (f i) ob" by (simp add: assign_def)
    have "map_of (AList.update h (f i) ob) ''__proto__'' = None"
      using False Cons.prems by (simp add: update_conv')
    from Cons.IH[OF this] False p a show ?thesis by simp
  qed
qed

lemma rowOf_updates:
  "rowOf hs line =
     foldl (\<lambda>ob (h, j). AList.update h (fieldAt (split line '','') j) ob) []
       (filter (\<lambda>p. fst p \<noteq> ''__proto__'') (zip hs [0 ..< length hs]))"
  unfolding rowOf_def Let_def by (rule foldl_assign_filter) simp

lemma keys_filter_fst:
  "set (map fst (filter (\<lambda>p. fst p \<noteq> k) ps)) = set (map fst ps) - {k}"
  by (induction ps) auto

lemma keys_rowOf: "fst ` set (rowOf hs line) = set hs - {''__proto__''}"
proof -
  have "set (map fst (rowOf hs line))
          = set (map fst (filter (\<lambda>p. fst p \<noteq> ''__proto__'') (zip hs [0 ..< length hs])))"
    unfolding rowOf_updates keys_foldl_update by simp
  also have "\<dots> = set (map fst (zip hs [0 ..< length hs])) - {''__proto__''}"
    by (rule keys_filter_fst)
  finally show ?thesis by simp
qed

lemma distinct_rowOf: "distinct (map fst (rowOf hs line))"
  by (simp add: rowOf_updates distinct_foldl_update)

lemma rowOf_missing:
  assumes "i < length hs" "length (split line '','') \<le> i" "hs ! i \<noteq> ''__proto__''"
  shows "map_of (rowOf hs line) (hs ! i) = Some []"
proof -
  let ?step = "\<lambda>ob (h, j). AList.update h (fieldAt (split line '','') j) ob"
  let ?P = "\<lambda>p :: string \<times> nat. fst p \<noteq> ''__proto__''"
  let ?ps = "zip hs [0 ..< length hs]"
  have ps: "filter ?P ?ps = filter ?P (take i ?ps) @ filter ?P (drop i ?ps)"
    by (simp only: filter_append[symmetric] append_take_drop_id)
  have "(hs ! i, i) \<in> set (drop i ?ps)"
  proof -
    have "drop i ?ps ! 0 = (hs ! i, i)" using assms(1) by simp
    moreover have "0 < length (drop i ?ps)" using assms(1) by simp
    ultimately show ?thesis by (metis nth_mem)
  qed
  then have mem: "(hs ! i, i) \<in> set (filter ?P (drop i ?ps))" using assms(3) by simp
  have late: "\<forall>(h, j) \<in> set (filter ?P (drop i ?ps)). h = hs ! i
                \<longrightarrow> fieldAt (split line '','') j = []"
  proof -
    have "\<forall>(h, j) \<in> set (drop i ?ps). i \<le> j"
      by (auto simp: drop_zip in_set_zip)
    with assms(2) show ?thesis by (auto simp: fieldAt_def)
  qed
  have "rowOf hs line = foldl ?step (foldl ?step [] (filter ?P (take i ?ps))) (filter ?P (drop i ?ps))"
    unfolding rowOf_updates by (subst ps) (simp only: foldl_append)
  then show ?thesis using map_of_foldl_update[OF mem late] by simp
qed

section \<open>Properties of the tabular parser\<close>

text \<open>
  The returned headers are the trimmed fields of the first line. Every row that the CSV
  parser returns is built from one of the lines after the first and has as its keys the
  headers other than \<open>__proto__\<close>; at every such header position that the split line
  does not reach, the row holds the empty string.
\<close>

theorem csv_rows_keys:
  "headers (parseFile result) = map trim (split (hd (split result [CHR 0x0A])) '','')
   \<and> (\<forall>item \<in> set (data (parseFile result)).
         fst ` set item = set (headers (parseFile result)) - {''__proto__''}
         \<and> (\<forall>h \<in> set (headers (parseFile result)). h \<noteq> ''__proto__'' \<longrightarrow> map_of item h \<noteq> None)
         \<and> (\<exists>line \<in> set (tl (split result [CHR 0x0A])).
               item = rowOf (headers (parseFile result)) line)
         \<and> (\<forall>line i. item = rowOf (headers (parseFile result)) line
                \<longrightarrow> i < length (headers (parseFile result))
                \<longrightarrow> length (split line '','') \<le> i
                \<longrightarrow> headers (parseFile result) ! i \<noteq> ''__proto__''
                \<longrightarrow> map_of item (headers (parseFile result) ! i) = Some []))"
proof -
  obtain l ls where sp: "split result [CHR 0x0A] = l # ls"
    using split_not_Nil[of "[CHR 0x0A]" result] by (cases "split result [CHR 0x0A]") auto
  define hs where "hs = map trim (split l '','')"
  have h: "headers (parseFile result) = hs"
    and d: "data (parseFile result) = filter someValue (map (rowOf hs) ls)"
    by (simp_all add: parseFile_def sp hs_def Let_def)
  have 1: "headers (parseFile result) = map trim (split (hd (split result [CHR 0x0A])) '','')"
    by (simp add: h hs_def sp)
  have 2: "fst ` set item = set hs - {''__proto__''}
         \<and> (\<forall>h \<in> set hs. h \<noteq> ''__proto__'' \<longrightarrow> map_of item h \<noteq> None)
         \<and> (\<exists>line \<in> set (tl (split result [CHR 0x0A])). item = rowOf hs line)
         \<and> (\<forall>line i. item = rowOf hs line \<longrightarrow> i < length hs
                \<longrightarrow> length (split line '','') \<le> i \<longrightarrow> hs ! i \<noteq> ''__proto__''
                \<longrightarrow> map_of item (hs ! i) = Some [])"
    if a: "item \<in> set (data (parseFile result))" for item
  proof -
    from a d obtain line where line: "line \<in> set ls" "item = rowOf hs line" by auto
    have k: "fst ` set item = set hs - {''__proto__''}" using line(2) keys_rowOf by simp
    have "\<forall>h \<in> set hs. h \<noteq> ''__proto__'' \<longrightarrow> map_of item h \<noteq> None"
    proof (intro ballI impI)
      fix h assume "h \<in> set hs" "h \<noteq> ''__proto__''"
      then have "h \<in> fst ` set item" using k by simp
      then show "map_of item h \<noteq> None" by (simp add: map_of_eq_None_iff)
    qed
    with k line sp rowOf_missing show ?thesis by auto
  qed
  from 1 2 show ?thesis unfolding h by blast
qed

theorem csv_rows_keys_witness:
  "[(''a'', ''1''), (''b'', [])] \<in> set (data (parseFile '' a ,b\<newline>1''))
   \<and> headers (parseFile '' a ,b\<newline>1'') = [''a'', ''b'']
   \<and> length (split ''1'' '','') = 1
   \<and> map_of [(''a'', ''1''), (''b'', [])] ''b'' = Some []"
proof -
  have m: "[(''a'', ''1''), (''b'', [])] \<in> set (data (parseFile '' a ,b\<newline>1''))"
    by code_simp
  have h: "headers (parseFile '' a ,b\<newline>1'') = [''a'', ''b'']"
    by code_simp
  have r: "[(''a'', ''1''), (''b'', [])] = rowOf [''a'', ''b''] ''1''"
    by code_simp
  have l: "length (split ''1'' '','') = 1"
    by code_simp
  have p: "[''a'', ''b''] ! 1 \<noteq> ''__proto__''" by simp
  from csv_rows_keys[of "'' a ,b\<newline>1''"] m
  have "\<forall>line i. [(''a'', ''1''), (''b'', [])] = rowOf (headers (parseFile '' a ,b\<newline>1'')) line
          \<longrightarrow> i < length (headers (parseFile '' a ,b\<newline>1''))
          \<longrightarrow> length (split line '','') \<le> i
          \<longrightarrow> headers (parseFile '' a ,b\<newline>1'') ! i \<noteq> ''__proto__''
          \<longrightarrow> map_of [(''a'', ''1''), (''b'', [])] (headers (parseFile '' a ,b\<newline>1'') ! i) = Some []"
    by blast
  with h r l p have "map_of [(''a'', ''1''), (''b'', [])] ([''a'', ''b''] ! 1) = Some []"
    by (metis One_nat_def le_refl length_Cons lessI list.size(3))
  with m h l show ?thesis by simp
qed

text \<open>
  C10. A row is not total over the header set when a header is \<open>__proto__\<close>. For the
  file \<open>" __proto__ , b\n1,2"\<close> the parser returns the headers \<open>__proto__\<close> and \<open>b\<close> and
  one row whose only key is \<open>b\<close>: the assignment \<open>obj["__proto__"] = "1"\<close> creates no
  key.
\<close>

theorem csv_proto_header_row:
  "headers (parseFile '' __proto__ , b\<newline>1,2'') = [''__proto__'', ''b'']
   \<and> data (parseFile '' __proto__ , b\<newline>1,2'') = [[(''b'', ''2'')]]
   \<and> map_of [(''b'', ''2'')] ''__proto__'' = None"
  by code_simp

section \<open>Properties of the filters\<close>

text \<open>
  The filter of the group aggregator compares the untrimmed value: with the allow-set
  \<open>{"A"}\<close> the row value \<open>" A"\<close> is rejected although its trimmed form is a member.
  The filter of the comparator rejects a row whose trimmed value is empty even when the
  empty string is in the allow-set.
\<close>

theorem filter_trim_counterexample:
  "passesSpec [(''c'', [''A''])] [(''c'', '' A'')]
   \<and> \<not> passesFilters [(''c'', [''A''])] [(''c'', '' A'')]
   \<and> passesSpec [(''c'', [[]])] [(''c'', '' '')]
   \<and> \<not> passesFiltersTrim [(''c'', [[]])] [(''c'', '' '')]"
  by code_simp

text \<open>
  C2, amended. A row passes the comparator's filter iff for every column with a non-empty
  allow-set the row has a value whose trimmed form is non-empty and a member of the set.
  It passes the group aggregator's filter iff for every such column the row has a value
  that is, untrimmed, a member of the set. It passes the pivot's filter iff for every
  such column \<open>String(value)\<close> is a member of the set. Membership is equality of strings:
  no case folding, no partial match.
\<close>

theorem filter_semantics:
  "(passesFiltersTrim filters item \<longleftrightarrow>
      (\<forall>(column, values) \<in> set filters. values \<noteq> [] \<longrightarrow>
         (\<exists>v. map_of item column = Some v \<and> trim v \<noteq> [] \<and> trim v \<in> set values)))
   \<and> (passesFilters filters item \<longleftrightarrow>
      (\<forall>(column, values) \<in> set filters. values \<noteq> [] \<longrightarrow>
         (\<exists>v. map_of item column = Some v \<and> v \<in> set values)))
   \<and> (passesFiltersStr numberToString filters pitem \<longleftrightarrow>
      (\<forall>(column, values) \<in> set filters. values \<noteq> [] \<longrightarrow>
         String numberToString (map_of pitem column) \<in> set values))"
  by (auto simp: passesFiltersTrim_def passesFilters_def passesFiltersStr_def list_all_iff
        set_entries split: option.splits)

theorem filter_semantics_witness:
  "passesFiltersTrim [(''c'', [''A'', ''B'']), (''d'', [])] [(''c'', '' A '')]
   \<and> \<not> passesFiltersTrim [(''c'', [''A''])] [(''c'', ''a'')]
   \<and> \<not> passesFiltersTrim [(''c'', [''A''])] [(''c'', ''AB'')]
   \<and> passesFilters [(''c'', [''A'', ''B'']), (''d'', [])] [(''c'', ''A'')]
   \<and> \<not> passesFilters [(''c'', [''A''])] [(''c'', ''a'')]
   \<and> passesFiltersStr (\<lambda>n. []) [(''c'', [''A'', ''B'']), (''d'', [])] [(''c'', S ''B'')]"
proof -
  have t: "trim '' A '' = ''A''" "trim ''a'' = ''a''" "trim ''AB'' = ''AB''"
    by code_simp+
  note a = filter_semantics[where filters = "[(''c'', [''A'', ''B'']), (''d'', [])]"
      and item = "[(''c'', '' A '')]" and numberToString = "\<lambda>n. []"
      and pitem = "[(''c'', S ''B'')]"]
  note b = filter_semantics[where filters = "[(''c'', [''A'', ''B'']), (''d'', [])]"
      and item = "[(''c'', ''A'')]" and numberToString = "\<lambda>n. []" and pitem = "[]"]
  note c = filter_semantics[where filters = "[(''c'', [''A''])]"
      and item = "[(''c'', ''a'')]" and numberToString = "\<lambda>n. []" and pitem = "[]"]
  note d = filter_semantics[where filters = "[(''c'', [''A''])]"
      and item = "[(''c'', ''AB'')]" and numberToString = "\<lambda>n. []" and pitem = "[]"]
  have 1: "passesFiltersTrim [(''c'', [''A'', ''B'']), (''d'', [])] [(''c'', '' A '')]"
    using a t by simp
  have 2: "passesFilters [(''c'', [''A'', ''B'']), (''d'', [])] [(''c'', ''A'')]"
    using b by simp
  have 3: "passesFiltersStr (\<lambda>n. []) [(''c'', [''A'', ''B'']), (''d'', [])] [(''c'', S ''B'')]"
    using a by (simp add: String_def)
  have 4: "\<not> passesFiltersTrim [(''c'', [''A''])] [(''c'', ''a'')]"
    "\<not> passesFilters [(''c'', [''A''])] [(''c'', ''a'')]"
    using c t by simp_all
  have 5: "\<not> passesFiltersTrim [(''c'', [''A''])] [(''c'', ''AB'')]"
    using d t by simp
  from 1 2 3 4 5 show ?thesis by simp
qed

section \<open>Properties of the two-category comparator\<close>

subsection \<open>A run on three rows\<close>

text \<open>
  C5. For the rows \<open>{cond: "X", resp: "Yes"}\<close>, \<open>{cond: "X", resp: "No"}\<close>,
  \<open>{cond: "Y", resp: "Yes"}\<close>, condition column \<open>cond\<close>, response column \<open>resp\<close> and
  no filter, the comparator returns the categories left \<open>"No"\<close>, right \<open>"Yes"\<close> and
  the two records \<open>X\<close> (left value \<open>-1\<close>, right value \<open>1\<close>, total \<open>2\<close>) and \<open>Y\<close>
  (left value \<open>0\<close>, right value \<open>1\<close>, total \<open>1\<close>), in descending order of total; each
  record also carries the two category labels.
\<close>

theorem end_to_end_scenario:
  "processData_cmp
     [[(''cond'', ''X''), (''resp'', ''Yes'')],
      [(''cond'', ''X''), (''resp'', ''No'')],
      [(''cond'', ''Y''), (''resp'', ''Yes'')]] ''cond'' ''resp'' []
   = \<lparr> cmp_data =
         [\<lparr> condition = ''X'', leftValue = - 1, rightValue = 1,
             leftLabel = ''No'', rightLabel = ''Yes'', r_total = 2 \<rparr>,
          \<lparr> condition = ''Y'', leftValue = 0, rightValue = 1,
             leftLabel = ''No'', rightLabel = ''Yes'', r_total = 1 \<rparr>],
       cat_left = ''No'', cat_right = ''Yes'' \<rparr>"
  by code_simp

subsection \<open>The tally of the comparator in closed form\<close>












subsection \<open>Categories\<close>




subsection \<open>Records\<close>





section \<open>Properties of the pivot aggregator\<close>

subsection \<open>The table of the specification in closed form\<close>

lemma length_addValue: "snd vi < length cell \<Longrightarrow> length (addValue item cell vi) = length cell"
  by (simp add: addValue_def)

lemma length_foldl_addValue:
  "\<forall>vi \<in> set ps. snd vi < length cell \<Longrightarrow> length (foldl (addValue item) cell ps) = length cell"
  by (induction ps arbitrary: cell) (simp_all add: length_addValue)

lemma nth_foldl_addValue_other:
  "\<forall>vi \<in> set ps. snd vi < length cell \<Longrightarrow> k \<notin> snd ` set ps
     \<Longrightarrow> foldl (addValue item) cell ps ! k = cell ! k"
proof (induction ps arbitrary: cell)
  case Nil
  then show ?case by simp
next
  case (Cons p ps)
  have "foldl (addValue item) (addValue item cell p) ps ! k = addValue item cell p ! k"
    using Cons.prems by (intro Cons.IH) (auto simp: length_addValue)
  also have "\<dots> = cell ! k" using Cons.prems by (auto simp: addValue_def)
  finally show ?case by simp
qed

lemma nth_foldl_addValue:
  "\<forall>vi \<in> set ps. snd vi < length cell \<Longrightarrow> distinct (map snd ps) \<Longrightarrow> (v, k) \<in> set ps
     \<Longrightarrow> foldl (addValue item) cell ps ! k = num_add (cell ! k) (or0 (Number (map_of item v)))"
proof (induction ps arbitrary: cell)
  case Nil
  then show ?case by simp
next
  case (Cons p ps)
  have len: "\<forall>vi \<in> set ps. snd vi < length (addValue item cell p)"
    using Cons.prems(1) by (simp add: length_addValue)
  show ?case
  proof (cases "p = (v, k)")
    case True
    then have "k \<notin> snd ` set ps" using Cons.prems(2) by simp
    then have "foldl (addValue item) (addValue item cell p) ps ! k = addValue item cell p ! k"
      using len by (intro nth_foldl_addValue_other)
    moreover have "addValue item cell p ! k = num_add (cell ! k) (or0 (Number (map_of item v)))"
      using True Cons.prems(1) by (simp add: addValue_def)
    ultimately show ?thesis by simp
  next
    case False
    then have in_ps: "(v, k) \<in> set ps" using Cons.prems(3) by simp
    then have "k \<in> snd ` set ps" by force
    then have "snd p \<noteq> k" using Cons.prems(2) by auto
    then have "addValue item cell p ! k = cell ! k"
      using Cons.prems(1) by (simp add: addValue_def)
    moreover have "foldl (addValue item) (addValue item cell p) ps ! k
        = num_add (addValue item cell p ! k) (or0 (Number (map_of item v)))"
      using len Cons.prems(2) in_ps by (intro Cons.IH) simp_all
    ultimately show ?thesis by simp
  qed
qed

lemma addValues_nth:
  assumes "length cell = length vs" "k < length vs"
  shows "foldl (addValue item) cell (zip vs [0 ..< length vs]) ! k
           = num_add (cell ! k) (or0 (Number (map_of item (vs ! k))))"
proof -
  have "\<forall>vi \<in> set (zip vs [0 ..< length vs]). snd vi < length cell"
    using assms(1) by (auto simp: in_set_zip)
  moreover have "distinct (map snd (zip vs [0 ..< length vs]))" by simp
  moreover have "(vs ! k, k) \<in> set (zip vs [0 ..< length vs])"
    using assms(2) by (auto simp: in_set_zip)
  ultimately show ?thesis by (rule nth_foldl_addValue)
qed

lemma addValues_length:
  "length cell = length vs \<Longrightarrow> length (foldl (addValue item) cell (zip vs [0 ..< length vs])) = length vs"
  by (subst length_foldl_addValue) (auto simp: in_set_zip)

lemma specCell_specStep:
  "specCell config (specStep nts config pt item) rk ck =
     (if matching nts config rk ck item
      then foldl (addValue item) (specCell config pt rk ck)
             (zip (cfg_values config) [0 ..< length (cfg_values config)])
      else specCell config pt rk ck)"
  by (auto simp: specCell_def specStep_def matching_def Let_def update_conv' split: option.splits)

lemma length_zeros: "length (zeros config) = length (cfg_values config)"
  by (simp add: zeros_def)

lemma specCell_Nil: "specCell config [] rk ck = zeros config"
  by (simp add: specCell_def)

lemma specCell_foldl_specStep:
  assumes "\<forall>rk ck. length (specCell config pt rk ck) = length (cfg_values config)"
  shows "length (specCell config (foldl (specStep nts config) pt rows) rk ck) = length (cfg_values config)
    \<and> (\<forall>k < length (cfg_values config).
          specCell config (foldl (specStep nts config) pt rows) rk ck ! k
          = foldl num_add (specCell config pt rk ck ! k)
              (map (\<lambda>item. or0 (Number (map_of item (cfg_values config ! k))))
                 (filter (matching nts config rk ck) rows)))"
  using assms
proof (induction rows arbitrary: pt)
  case Nil
  then show ?case by simp
next
  case (Cons item rows)
  have inv: "\<forall>rk ck. length (specCell config (specStep nts config pt item) rk ck) = length (cfg_values config)"
    using Cons.prems by (simp add: specCell_specStep addValues_length)
  note IH = Cons.IH[OF inv]
  show ?case
  proof (intro conjI allI impI)
    show "length (specCell config (foldl (specStep nts config) pt (item # rows)) rk ck) = length (cfg_values config)"
      using IH by simp
  next
    fix k assume k: "k < length (cfg_values config)"
    have "specCell config (specStep nts config pt item) rk ck ! k =
            (if matching nts config rk ck item
             then num_add (specCell config pt rk ck ! k) (or0 (Number (map_of item (cfg_values config ! k))))
             else specCell config pt rk ck ! k)"
      using k Cons.prems by (simp add: specCell_specStep addValues_nth)
    with IH k show "specCell config (foldl (specStep nts config) pt (item # rows)) rk ck ! k
          = foldl num_add (specCell config pt rk ck ! k)
              (map (\<lambda>item. or0 (Number (map_of item (cfg_values config ! k))))
                 (filter (matching nts config rk ck) (item # rows)))"
      by simp
  qed
qed

lemma spec_cell:
  "specCell config (foldl (specStep nts config) [] rows) rk ck
     = map (cellSum (filter (matching nts config rk ck) rows)) (cfg_values config)"
proof (rule nth_equalityI)
  have inv: "\<forall>rk ck. length (specCell config [] rk ck) = length (cfg_values config)"
    by (simp add: specCell_Nil length_zeros)
  note c = specCell_foldl_specStep[OF inv, of nts rows rk ck]
  show "length (specCell config (foldl (specStep nts config) [] rows) rk ck)
          = length (map (cellSum (filter (matching nts config rk ck) rows)) (cfg_values config))"
    using c by simp
  fix k assume "k < length (specCell config (foldl (specStep nts config) [] rows) rk ck)"
  then have k: "k < length (cfg_values config)" using c by simp
  then show "specCell config (foldl (specStep nts config) [] rows) rk ck ! k
          = map (cellSum (filter (matching nts config rk ck) rows)) (cfg_values config) ! k"
    using c by (simp add: specCell_Nil zeros_def cellSum_def)
qed

lemma spec_zero_fill:
  "length (out_values (specPivot numberToString rows config filters))
     = length (out_rows (specPivot numberToString rows config filters))
   \<and> (\<forall>i < length (out_rows (specPivot numberToString rows config filters)).
        length (out_values (specPivot numberToString rows config filters) ! i)
          = length (out_columns (specPivot numberToString rows config filters))
        \<and> (\<forall>j < length (out_columns (specPivot numberToString rows config filters)).
             out_values (specPivot numberToString rows config filters) ! i ! j
               = map (cellSum (filter (matching numberToString config
                        (out_rows (specPivot numberToString rows config filters) ! i)
                        (out_columns (specPivot numberToString rows config filters) ! j))
                      (filter (passesFiltersStr numberToString filters) rows)))
                   (cfg_values config)
             \<and> ((\<forall>item \<in> set (filter (passesFiltersStr numberToString filters) rows).
                    \<not> matching numberToString config
                        (out_rows (specPivot numberToString rows config filters) ! i)
                        (out_columns (specPivot numberToString rows config filters) ! j) item)
                 \<longrightarrow> out_values (specPivot numberToString rows config filters) ! i ! j
                       = replicate (length (cfg_values config)) (Fin 0))))"
proof -
  let ?fd = "filter (passesFiltersStr numberToString filters) rows"
  have none: "filter P ?fd = []" if "\<forall>item \<in> set ?fd. \<not> P item" for P
    using that by (simp add: filter_empty_conv)
  have z: "map (cellSum []) (cfg_values config) = replicate (length (cfg_values config)) (Fin 0)"
    by (rule nth_equalityI) (simp_all add: cellSum_def)
  show ?thesis
    unfolding specPivot_def Let_def
    by (auto simp: spec_cell dest!: none simp: z)
qed

subsection \<open>Runs that meet no inherited member\<close>

lemma inherited_proto: "inherited ''__proto__''"
  by (simp add: inherited_def)

lemma readable_own: "\<not> inherited k \<Longrightarrow> readable [] item k"
  by (simp add: readable_def)

lemma accumulate_own:
  "accumulate config [] item cell
     = Inr (foldl (addValue item) cell (zip (cfg_values config) [0 ..< length (cfg_values config)]))"
  by (simp add: accumulate_def list_all_iff)

lemma pivotStep_own:
  assumes "list_all (\<lambda>k. \<not> inherited k) (cfg_rows config @ cfg_columns config)"
    and "\<not> inherited (keyOf nts (cfg_rows config) item)"
    and "\<not> inherited (keyOf nts (cfg_columns config) item)"
  shows "pivotStep nts config \<lparr> own_rows = t, shared = [] \<rparr> item
           = Inr \<lparr> own_rows = specStep nts config t item, shared = [] \<rparr>"
proof -
  have r: "list_all (readable [] item) (cfg_rows config @ cfg_columns config)"
    using assms(1) by (simp add: list_all_iff readable_own)
  have p: "keyOf nts (cfg_rows config) item \<noteq> ''__proto__''"
    using assms(2) inherited_proto by metis
  show ?thesis
    using r p assms(2,3)
    by (simp add: pivotStep_def intoRow_def specStep_def Let_def accumulate_own
        split: option.splits)
qed

lemma forEach_pivotStep_own:
  assumes "list_all (\<lambda>k. \<not> inherited k) (cfg_rows config @ cfg_columns config)"
  shows "\<forall>item \<in> set items. \<not> inherited (keyOf nts (cfg_rows config) item)
                            \<and> \<not> inherited (keyOf nts (cfg_columns config) item)
     \<Longrightarrow> forEach (pivotStep nts config) \<lparr> own_rows = t, shared = [] \<rparr> items
          = Inr \<lparr> own_rows = foldl (specStep nts config) t items, shared = [] \<rparr>"
  by (induction items arbitrary: t) (simp_all add: pivotStep_own[OF assms])

lemma cellOf_own:
  "\<not> inherited row \<Longrightarrow> \<not> inherited col
     \<Longrightarrow> cellOf config \<lparr> own_rows = t, shared = [] \<rparr> row col = Inr (specCell config t row col)"
  using inherited_proto
  by (auto simp: cellOf_def protoCell_def specCell_def split: option.splits)

lemma mapE_Inr: "\<forall>x \<in> set xs. f x = Inr (g x) \<Longrightarrow> mapE f xs = Inr (map g xs)"
  by (induction xs) simp_all

lemma processData_pivot_own:
  assumes "ownKeysOnly numberToString rows config filters"
  shows "processData_pivot numberToString rows config filters
           = Inr (specPivot numberToString rows config filters)"
proof -
  let ?fd = "filter (passesFiltersStr numberToString filters) rows"
  let ?ur = "uniq (map (keyOf numberToString (cfg_rows config)) ?fd)"
  let ?uc = "uniq (map (keyOf numberToString (cfg_columns config)) ?fd)"
  let ?t = "foldl (specStep numberToString config) [] ?fd"
  have names: "list_all (\<lambda>k. \<not> inherited k) (cfg_rows config @ cfg_columns config)"
    and fnames: "list_all (\<lambda>k. \<not> inherited k) (map fst filters)"
    and keys: "\<forall>item \<in> set ?fd. \<not> inherited (keyOf numberToString (cfg_rows config) item)
                            \<and> \<not> inherited (keyOf numberToString (cfg_columns config) item)"
    using assms by (auto simp: ownKeysOnly_def list_all_iff)
  have g1: "list_all (\<lambda>item. list_all (readable [] item) (map fst filters)) rows"
    using fnames by (simp add: list_all_iff readable_own)
  have g2: "list_all (\<lambda>item. list_all (readable [] item) (cfg_rows config @ cfg_columns config)) ?fd"
    using names by (simp add: list_all_iff readable_own)
  have loop: "forEach (pivotStep numberToString config) \<lparr> own_rows = [], shared = [] \<rparr> ?fd
                = Inr \<lparr> own_rows = ?t, shared = [] \<rparr>"
    by (rule forEach_pivotStep_own[OF names keys])
  have ur: "\<forall>row \<in> set ?ur. \<not> inherited row" using keys by (auto simp: set_uniq)
  have uc: "\<forall>col \<in> set ?uc. \<not> inherited col" using keys by (auto simp: set_uniq)
  have row: "mapE (cellOf config \<lparr> own_rows = ?t, shared = [] \<rparr> row) ?uc
               = Inr (map (\<lambda>col. specCell config ?t row col) ?uc)" if "row \<in> set ?ur" for row
    by (rule mapE_Inr) (use that ur uc in \<open>simp add: cellOf_own\<close>)
  have cells: "mapE (\<lambda>row. mapE (cellOf config \<lparr> own_rows = ?t, shared = [] \<rparr> row) ?uc) ?ur
               = Inr (map (\<lambda>row. map (\<lambda>col. specCell config ?t row col) ?uc) ?ur)"
    by (rule mapE_Inr) (simp add: row)
  show ?thesis
    unfolding processData_pivot_def specPivot_def Let_def
    using g1 g2 by (simp add: loop cells)
qed

text \<open>
  When the run meets no inherited member, the output has one row for every row key and in
  it one cell for every column key; each cell is a vector with one slot for every value
  column, the slot holding the sum of \<open>Number(cell) || 0\<close> over the filtered rows with
  these two keys. A pair of keys with no such row has the vector of zeros, and a cell
  whose \<open>Number\<close> is \<open>NaN\<close> adds zero.
\<close>

lemma pivot_zero_fill_own_keys:
  assumes "ownKeysOnly numberToString rows config filters"
  shows "\<exists>p. processData_pivot numberToString rows config filters = Inr p
   \<and> length (out_values p) = length (out_rows p)
   \<and> (\<forall>i < length (out_rows p).
        length (out_values p ! i) = length (out_columns p)
        \<and> (\<forall>j < length (out_columns p).
             out_values p ! i ! j
               = map (cellSum (filter (matching numberToString config
                        (out_rows p ! i) (out_columns p ! j))
                      (filter (passesFiltersStr numberToString filters) rows)))
                   (cfg_values config)
             \<and> ((\<forall>item \<in> set (filter (passesFiltersStr numberToString filters) rows).
                    \<not> matching numberToString config (out_rows p ! i) (out_columns p ! j) item)
                 \<longrightarrow> out_values p ! i ! j = replicate (length (cfg_values config)) (Fin 0))))"
  using processData_pivot_own[OF assms] spec_zero_fill[of numberToString rows config filters]
  by blast

lemma nan_adds_zero: "isNaN (Number x) \<Longrightarrow> or0 (Number x) = Fin 0"
  by (cases "Number x") (simp_all add: or0_def)

subsection \<open>A row key that names an inherited member\<close>

text \<open>
  C8. With the rows \<open>{r: "__proto__", c: "x", v: "5"}\<close> and \<open>{r: "a", c: "y", v: "1"}\<close>,
  the row column \<open>r\<close>, the column column \<open>c\<close> and the value column \<open>v\<close>, no row has the
  keys \<open>a\<close> and \<open>x\<close>, yet the output reports \<open>[5]\<close> for them and not the zeros: the cell of
  the first row was stored on \<open>Object.prototype\<close>, and the row object of \<open>a\<close> inherits it.
  The table of the specification has the zeros there.
\<close>

theorem pivot_proto_row:
  "processData_pivot (\<lambda>n. [])
      [[(''r'', S ''__proto__''), (''c'', S ''x''), (''v'', S ''5'')],
       [(''r'', S ''a''), (''c'', S ''y''), (''v'', S ''1'')]]
      \<lparr> cfg_rows = [''r''], cfg_columns = [''c''], cfg_values = [''v''] \<rparr> []
     = Inr \<lparr> out_rows = [''__proto__'', ''a''], out_columns = [''x'', ''y''],
             out_values = [[[Fin 5], [Fin 0]], [[Fin 5], [Fin 1]]] \<rparr>
   \<and> filter (matching (\<lambda>n. [])
               \<lparr> cfg_rows = [''r''], cfg_columns = [''c''], cfg_values = [''v''] \<rparr> ''a'' ''x'')
        [[(''r'', S ''__proto__''), (''c'', S ''x''), (''v'', S ''5'')],
         [(''r'', S ''a''), (''c'', S ''y''), (''v'', S ''1'')]] = []
   \<and> specPivot (\<lambda>n. [])
      [[(''r'', S ''__proto__''), (''c'', S ''x''), (''v'', S ''5'')],
       [(''r'', S ''a''), (''c'', S ''y''), (''v'', S ''1'')]]
      \<lparr> cfg_rows = [''r''], cfg_columns = [''c''], cfg_values = [''v''] \<rparr> []
     = \<lparr> out_rows = [''__proto__'', ''a''], out_columns = [''x'', ''y''],
         out_values = [[[Fin 5], [Fin 0]], [[Fin 0], [Fin 1]]] \<rparr>"
  by code_simp

section \<open>Properties of the group aggregator\<close>

subsection \<open>The loop in closed form\<close>

lemma forEach_Cons_Inr:
  "forEach f s (x # xs) = Inr s'' \<Longrightarrow> \<exists>s'. f s x = Inr s' \<and> forEach f s' xs = Inr s''"
  by (simp split: sum.splits)

lemma forEach_returns:
  assumes "\<And>s x. x \<in> set xs \<Longrightarrow> \<exists>s'. f s x = Inr s'"
  shows "\<exists>s'. forEach f s xs = Inr s'"
  using assms
proof (induction xs arbitrary: s)
  case Nil
  then show ?case by simp
next
  case (Cons x xs)
  from Cons.prems[of x s] obtain s1 where s1: "f s x = Inr s1" by auto
  from Cons.IH[of s1] Cons.prems obtain s2 where "forEach f s1 xs = Inr s2" by auto
  with s1 show ?case by simp
qed

lemma addItem_conditionsOf:
  "addItem cc sel acc item = Inr acc'
     \<Longrightarrow> forEach (addCondition sel item) acc (conditionsOf cc item) = Inr acc'"
  by (auto simp: addItem_def conditionsOf_def readProp_def split: option.splits if_splits)

lemma getCount_assign:
  "col \<noteq> ''__proto__'' \<Longrightarrow> getCount (assign k v cs) col = (if k = col then v else getCount cs col)"
  by (auto simp: getCount_def assign_def update_conv')

lemma noproto_assign:
  "map_of cs ''__proto__'' = None \<Longrightarrow> map_of (assign k v cs) ''__proto__'' = None"
  by (auto simp: assign_def update_conv')

lemma getCount_addCell:
  "col \<noteq> ''__proto__'' \<Longrightarrow> getCount (addCell item cs k) col =
     (if k = col then foldl num_add (getCount cs col) (cellContribution item col)
      else getCount cs col)"
  by (simp add: addCell_def cellContribution_def Let_def getCount_assign split: read.splits)

lemma noproto_addCell:
  "map_of cs ''__proto__'' = None \<Longrightarrow> map_of (addCell item cs k) ''__proto__'' = None"
  by (simp add: addCell_def Let_def noproto_assign split: read.splits)

lemma getCount_foldl_addCell:
  "col \<noteq> ''__proto__'' \<Longrightarrow> getCount (foldl (addCell item) cs sel) col =
     foldl num_add (getCount cs col)
       (concat (replicate (count_list sel col) (cellContribution item col)))"
  by (induction sel arbitrary: cs) (simp_all add: getCount_addCell)

lemma noproto_foldl_addCell:
  "map_of cs ''__proto__'' = None \<Longrightarrow> map_of (foldl (addCell item) cs sel) ''__proto__'' = None"
  by (induction sel arbitrary: cs) (simp_all add: noproto_addCell)

lemma getCount_newGroup_aux:
  "col \<noteq> ''__proto__'' \<Longrightarrow> getCount (foldl (\<lambda>cs col. assign col (Fin 0) cs) cs0 sel) col =
     (if col \<in> set sel then Fin 0 else getCount cs0 col)"
  by (induction sel arbitrary: cs0) (auto simp: getCount_assign)

lemma noproto_newGroup_aux:
  "map_of cs0 ''__proto__'' = None
     \<Longrightarrow> map_of (foldl (\<lambda>cs col. assign col (Fin 0) cs) cs0 sel) ''__proto__'' = None"
  by (induction sel arbitrary: cs0) (simp_all add: noproto_assign)

lemma getCount_newGroup:
  "col \<in> set sel \<Longrightarrow> col \<noteq> ''__proto__'' \<Longrightarrow> getCount (counts (newGroup sel)) col = Fin 0"
  by (simp add: newGroup_def getCount_newGroup_aux)

lemma noproto_newGroup: "map_of (counts (newGroup sel)) ''__proto__'' = None"
  by (simp add: newGroup_def noproto_newGroup_aux)

lemma total_newGroup: "g_total (newGroup sel) = 0"
  by (simp add: newGroup_def)

lemma groupAt_addCondition:
  assumes "addCondition sel item cc t = Inr cc'" and "\<not> inherited c"
  shows "groupAt sel cc' c =
     (if t = c
      then \<lparr> g_total = g_total (groupAt sel cc c) + 1,
             counts = foldl (addCell item) (counts (groupAt sel cc c)) sel \<rparr>
      else groupAt sel cc c)"
  using assms
  by (auto simp: groupAt_def addCondition_def readProp_def update_conv'
      split: option.splits if_splits)

lemma groupAt_forEach_addCondition:
  assumes "forEach (addCondition sel item) cc ts = Inr cc'" and "\<not> inherited c"
  shows "g_total (groupAt sel cc' c) = g_total (groupAt sel cc c) + count_list ts c"
    and "col \<noteq> ''__proto__'' \<Longrightarrow> getCount (counts (groupAt sel cc' c)) col
      = foldl num_add (getCount (counts (groupAt sel cc c)) col)
          (concat (replicate (count_list ts c)
             (concat (replicate (count_list sel col) (cellContribution item col)))))"
    and "map_of (counts (groupAt sel cc c)) ''__proto__'' = None
           \<Longrightarrow> map_of (counts (groupAt sel cc' c)) ''__proto__'' = None"
  using assms(1)
proof (induction ts arbitrary: cc)
  case Nil
  {
    case 1 then show ?case by simp
  next
    case 2 then show ?case by simp
  next
    case 3 then show ?case by simp
  }
next
  case (Cons t ts)
  {
    case 1
    from forEach_Cons_Inr[OF 1] obtain cc1 where
      a: "addCondition sel item cc t = Inr cc1" and f: "forEach (addCondition sel item) cc1 ts = Inr cc'"
      by blast
    show ?case
      using Cons.IH(1)[OF f] groupAt_addCondition[OF a assms(2)] by simp
  next
    case 2
    from forEach_Cons_Inr[OF 2(2)] obtain cc1 where
      a: "addCondition sel item cc t = Inr cc1" and f: "forEach (addCondition sel item) cc1 ts = Inr cc'"
      by blast
    show ?case
      using Cons.IH(2)[OF 2(1) f] groupAt_addCondition[OF a assms(2)] 2(1)
      by (simp add: getCount_foldl_addCell)
  next
    case 3
    from forEach_Cons_Inr[OF 3(2)] obtain cc1 where
      a: "addCondition sel item cc t = Inr cc1" and f: "forEach (addCondition sel item) cc1 ts = Inr cc'"
      by blast
    have "map_of (counts (groupAt sel cc1 c)) ''__proto__'' = None"
      using groupAt_addCondition[OF a assms(2)] 3(1) by (simp add: noproto_foldl_addCell)
    then show ?case by (rule Cons.IH(3)[OF _ f])
  }
qed

lemma groupAt_forEach_addItem:
  assumes "forEach (addItem cc sel) acc rows = Inr acc'" and "\<not> inherited c"
  shows "g_total (groupAt sel acc' c) = g_total (groupAt sel acc c) + groupTotal rows cc c"
    and "col \<noteq> ''__proto__'' \<Longrightarrow> getCount (counts (groupAt sel acc' c)) col
      = foldl num_add (getCount (counts (groupAt sel acc c)) col)
          (concat (map (rowContribution cc sel c col) rows))"
    and "map_of (counts (groupAt sel acc c)) ''__proto__'' = None
           \<Longrightarrow> map_of (counts (groupAt sel acc' c)) ''__proto__'' = None"
  using assms(1)
proof (induction rows arbitrary: acc)
  case Nil
  {
    case 1 then show ?case by (simp add: groupTotal_def)
  next
    case 2 then show ?case by simp
  next
    case 3 then show ?case by simp
  }
next
  case (Cons item rows)
  {
    case 1
    from forEach_Cons_Inr[OF 1] obtain a1 where
      a: "addItem cc sel acc item = Inr a1" and f: "forEach (addItem cc sel) a1 rows = Inr acc'"
      by blast
    note g = groupAt_forEach_addCondition[OF addItem_conditionsOf[OF a] assms(2)]
    show ?case using Cons.IH(1)[OF f] g(1) by (simp add: groupTotal_def)
  next
    case 2
    from forEach_Cons_Inr[OF 2(2)] obtain a1 where
      a: "addItem cc sel acc item = Inr a1" and f: "forEach (addItem cc sel) a1 rows = Inr acc'"
      by blast
    note g = groupAt_forEach_addCondition[OF addItem_conditionsOf[OF a] assms(2)]
    show ?case using Cons.IH(2)[OF 2(1) f] g(2)[OF 2(1)] by (simp add: rowContribution_def)
  next
    case 3
    from forEach_Cons_Inr[OF 3(2)] obtain a1 where
      a: "addItem cc sel acc item = Inr a1" and f: "forEach (addItem cc sel) a1 rows = Inr acc'"
      by blast
    note g = groupAt_forEach_addCondition[OF addItem_conditionsOf[OF a] assms(2)]
    show ?case using Cons.IH(3)[OF _ f] g(3)[OF 3(1)] by simp
  }
qed

lemma keys_addCondition:
  assumes "addCondition sel item cc t = Inr cc'"
  shows "map fst cc' = (if t \<in> set (map fst cc) \<or> inherited t then map fst cc else map fst cc @ [t])"
proof (cases "map_of cc t")
  case None
  then have "t \<notin> set (map fst cc)" by (simp add: map_of_eq_None_iff)
  with None assms show ?thesis
    by (auto simp: addCondition_def readProp_def update_keys split: if_splits)
next
  case (Some g)
  then have mem: "t \<in> set (map fst cc)"
    by (metis map_of_eq_None_iff option.distinct(1) set_map)
  then have "map fst (AList.update t x cc) = map fst cc" for x
    by (simp only: update_keys if_True)
  with Some assms mem show ?thesis
    by (auto simp: addCondition_def readProp_def simp del: set_map)
qed

lemma keys_forEach_addCondition:
  "forEach (addCondition sel item) cc ts = Inr cc'
     \<Longrightarrow> map fst cc' = foldl (\<lambda>acc x. if x \<in> set acc then acc else acc @ [x]) (map fst cc)
                         (filter (\<lambda>t. \<not> inherited t) ts)"
proof (induction ts arbitrary: cc)
  case Nil
  then show ?case by simp
next
  case (Cons t ts)
  from forEach_Cons_Inr[OF Cons.prems] obtain cc1 where
    a: "addCondition sel item cc t = Inr cc1" and f: "forEach (addCondition sel item) cc1 ts = Inr cc'"
    by blast
  show ?case
    using Cons.IH[OF f] keys_addCondition[OF a] by (simp del: set_map)
qed

lemma keys_forEach_addItem:
  "forEach (addItem cc sel) acc rows = Inr acc'
     \<Longrightarrow> map fst acc' = foldl (\<lambda>acc x. if x \<in> set acc then acc else acc @ [x]) (map fst acc)
                          (filter (\<lambda>t. \<not> inherited t) (concat (map (conditionsOf cc) rows)))"
proof (induction rows arbitrary: acc)
  case Nil
  then show ?case by simp
next
  case (Cons item rows)
  from forEach_Cons_Inr[OF Cons.prems] obtain a1 where
    a: "addItem cc sel acc item = Inr a1" and f: "forEach (addItem cc sel) a1 rows = Inr acc'"
    by blast
  show ?case
    using Cons.IH[OF f] keys_forEach_addCondition[OF addItem_conditionsOf[OF a]]
    by (simp del: set_map)
qed

lemma keys_conditionCounts:
  "conditionCounts rows cc sel filters = Inr groups
     \<Longrightarrow> map fst groups = uniq (filter (\<lambda>t. \<not> inherited t)
            (concat (map (conditionsOf cc) (filter (passesFilters filters) rows))))"
  using keys_forEach_addItem[of cc sel "[]" "filter (passesFilters filters) rows" groups]
  by (simp add: conditionCounts_def uniq_def)

lemma distinct_conditionCounts:
  "conditionCounts rows cc sel filters = Inr groups \<Longrightarrow> distinct (map fst groups)"
  by (simp add: keys_conditionCounts distinct_uniq)

lemma addCondition_returns: "\<not> inherited t \<Longrightarrow> \<exists>cc'. addCondition sel item cc t = Inr cc'"
  by (simp add: addCondition_def readProp_def split: option.splits)

lemma addItem_returns:
  assumes "readProp item cc \<noteq> Member" and "\<forall>t \<in> set (conditionsOf cc item). \<not> inherited t"
  shows "\<exists>acc'. addItem cc sel acc item = Inr acc'"
proof (cases "readProp item cc")
  case (Own v)
  then have m: "map_of item cc = Some v" by (simp add: readProp_def split: option.splits if_splits)
  show ?thesis
  proof (cases "v = []")
    case True
    with Own show ?thesis by (simp add: addItem_def)
  next
    case False
    with m have "conditionsOf cc item = split v '', ''" by (simp add: conditionsOf_def)
    with assms(2) have "\<And>s x. x \<in> set (split v '', '') \<Longrightarrow> \<exists>s'. addCondition sel item s x = Inr s'"
      by (simp add: addCondition_returns)
    from forEach_returns[of "split v '', ''" "addCondition sel item", OF this]
    show ?thesis using Own False by (simp add: addItem_def)
  qed
next
  case Member
  with assms(1) show ?thesis by simp
next
  case Undefined
  then show ?thesis by (simp add: addItem_def)
qed

lemma conditionCounts_returns:
  "ownConditions rows cc filters \<Longrightarrow> \<exists>groups. conditionCounts rows cc sel filters = Inr groups"
  unfolding conditionCounts_def ownConditions_def
  by (rule forEach_returns) (simp add: addItem_returns list_all_iff)

lemma own_tokens:
  "ownConditions rows cc filters
     \<Longrightarrow> filter (\<lambda>t. \<not> inherited t) (concat (map (conditionsOf cc) (filter (passesFilters filters) rows)))
          = concat (map (conditionsOf cc) (filter (passesFilters filters) rows))"
  by (auto simp: ownConditions_def list_all_iff filter_id_conv)

lemma group_in_conditionCounts:
  assumes "conditionCounts rows cc sel filters = Inr groups" and "(c, g) \<in> set groups"
  shows "g_total g = groupTotal (filter (passesFilters filters) rows) cc c"
    and "col \<in> set sel \<Longrightarrow> col \<noteq> ''__proto__'' \<Longrightarrow> getCount (counts g) col
           = groupAcc (filter (passesFilters filters) rows) cc sel c col"
    and "map_of (counts g) ''__proto__'' = None"
    and "\<exists>item \<in> set (filter (passesFilters filters) rows). c \<in> set (conditionsOf cc item)"
proof -
  let ?fd = "filter (passesFilters filters) rows"
  have run: "forEach (addItem cc sel) [] ?fd = Inr groups"
    using assms(1) by (simp add: conditionCounts_def)
  have "c \<in> set (map fst groups)" using assms(2) by force
  then have mem: "c \<in> set (filter (\<lambda>t. \<not> inherited t) (concat (map (conditionsOf cc) ?fd)))"
    unfolding keys_conditionCounts[OF assms(1)] set_uniq .
  then have own: "\<not> inherited c" by simp
  have "map_of groups c = Some g"
    using assms(2) distinct_conditionCounts[OF assms(1)] by simp
  then have g: "groupAt sel groups c = g" by (simp add: groupAt_def)
  have e: "groupAt sel [] c = newGroup sel" by (simp add: groupAt_def)
  note f = groupAt_forEach_addItem[OF run own]
  show "g_total g = groupTotal ?fd cc c"
    using f(1) g e by (simp add: total_newGroup)
  show "getCount (counts g) col = groupAcc ?fd cc sel c col"
    if "col \<in> set sel" "col \<noteq> ''__proto__''"
    using f(2)[OF that(2)] g e that by (simp add: getCount_newGroup groupAcc_def)
  show "map_of (counts g) ''__proto__'' = None"
    using f(3) g e by (simp add: noproto_newGroup)
  show "\<exists>item \<in> set ?fd. c \<in> set (conditionsOf cc item)"
    using mem by auto
qed

lemma totalOf_groupAt: "totalOf cc c = g_total (groupAt sel cc c)"
  by (simp add: totalOf_def groupAt_def total_newGroup split: option.splits)

lemma set_keys_forEach_addCondition:
  "forEach (addCondition sel item) cc ts = Inr cc'
     \<Longrightarrow> set (map fst cc') = set (map fst cc) \<union> {t \<in> set ts. \<not> inherited t}"
  unfolding keys_forEach_addCondition by (simp add: set_uniq_aux)

subsection \<open>Membership in several groups\<close>

text \<open>
  A row whose condition value is an own non-empty string adds one to the total of a
  condition for every occurrence of the condition among its tokens, as long as the
  condition names no inherited member and the call returns; the conditions with an entry
  afterwards are those before and the tokens that name no inherited member.
\<close>

lemma own_token_membership:
  assumes "addItem conditionColumn selectedColumns cc item = Inr cc'"
  shows "\<not> inherited c \<Longrightarrow>
           totalOf cc' c = totalOf cc c + count_list (conditionsOf conditionColumn item) c"
    and "set (map fst cc')
           = set (map fst cc) \<union> {t \<in> set (conditionsOf conditionColumn item). \<not> inherited t}"
proof -
  note run = addItem_conditionsOf[OF assms]
  show "totalOf cc' c = totalOf cc c + count_list (conditionsOf conditionColumn item) c"
    if "\<not> inherited c"
    using groupAt_forEach_addCondition(1)[OF run that]
    by (simp add: totalOf_groupAt[of _ _ selectedColumns])
  show "set (map fst cc')
           = set (map fst cc) \<union> {t \<in> set (conditionsOf conditionColumn item). \<not> inherited t}"
    by (rule set_keys_forEach_addCondition[OF run])
qed

lemma own_token_totals:
  assumes "conditionCounts rows conditionColumn selectedColumns filters = Inr groups"
    and "\<not> inherited c"
  shows "totalOf groups c = groupTotal (filter (passesFilters filters) rows) conditionColumn c"
proof -
  have run: "forEach (addItem conditionColumn selectedColumns) []
               (filter (passesFilters filters) rows) = Inr groups"
    using assms(1) by (simp add: conditionCounts_def)
  show ?thesis
    using groupAt_forEach_addItem(1)[OF run assms(2)]
    by (simp add: totalOf_groupAt[of _ _ selectedColumns] groupAt_def total_newGroup)
qed

text \<open>
  C1. A condition token that names a member of \<open>Object.prototype\<close> gets no group: the
  lookup \<open>conditionCounts[condition]\<close> finds the inherited member, so no entry is
  created and the row adds to no total under that token. With the single row
  \<open>{c: "constructor", m: "1"}\<close> the call throws at \<open>counts[col] += numValue\<close>; with the
  row \<open>{c: "A, constructor", m: ""}\<close> it returns the group \<open>A\<close> alone. In
  \<open>countConditions\<close> the count of \<open>constructor\<close> becomes a text, and \<open>__proto__\<close> gets no
  entry. The row is not counted in every group of its tokens.
\<close>

theorem inherited_condition_token:
  "processData [[(''c'', ''constructor''), (''m'', ''1'')]] ''c'' [''m''] [] = Inl TypeError
   \<and> conditionCounts [[(''c'', ''A, constructor''), (''m'', [])]] ''c'' [''m''] []
       = Inr [(''A'', \<lparr> g_total = 1, counts = [(''m'', Fin 0)] \<rparr>)]
   \<and> processData [[(''c'', ''A, constructor''), (''m'', [])]] ''c'' [''m''] []
       = Inr [[(''condition'', S ''A''), (''m'', N (Fin 0))]]
   \<and> conditionsOf ''c'' [(''c'', ''A, constructor''), (''m'', [])] = [''A'', ''constructor'']
   \<and> countConditions [[(''Condition'', ''constructor'')]] = [(''constructor'', Txt)]
   \<and> countConditions [[(''Condition'', ''__proto__'')]] = []"
  by code_simp

subsection \<open>Emitted records and their order\<close>

lemma map_of_foldl_assign:
  "map_of (foldl (\<lambda>ob (k, v). AList.update k v ob) ob kvs) k
     = (case map_of (rev kvs) k of None \<Rightarrow> map_of ob k | Some v \<Rightarrow> Some v)"
proof (induction kvs arbitrary: ob)
  case Nil
  then show ?case by simp
next
  case (Cons p kvs)
  obtain k' v' where p: "p = (k', v')" by (cases p)
  show ?case
    unfolding p by (simp add: Cons.IH update_conv' map_add_def split: option.splits)
qed

lemma distinct_foldl_assign:
  "distinct (map fst ob) \<Longrightarrow> distinct (map fst (foldl (\<lambda>ob (k, v). AList.update k v ob) ob kvs))"
proof (induction kvs arbitrary: ob)
  case Nil
  then show ?case by simp
next
  case (Cons p kvs)
  obtain k' v' where p: "p = (k', v')" by (cases p)
  show ?case unfolding p using Cons.prems by (simp add: Cons.IH distinct_update)
qed

lemma map_of_rev_distinct: "distinct (map fst xs) \<Longrightarrow> map_of (rev xs) = map_of xs"
  by (rule map_of_inject_set[THEN iffD2]) (simp_all add: rev_map[symmetric])

lemma map_of_graph:
  "map_of (map (\<lambda>col. (col, f col)) xs) k = (if k \<in> set xs then Some (f k) else None)"
  by (induction xs) auto

lemma map_of_fromEntries_measures:
  "map_of (fromEntries (map (\<lambda>col. (col, f col)) sel)) k = (if k \<in> set sel then Some (f k) else None)"
proof -
  have "map_of (rev (map (\<lambda>col. (col, f col)) sel)) k = (if k \<in> set sel then Some (f k) else None)"
    using map_of_graph[of f "rev sel" k] by (simp add: rev_map)
  then show ?thesis by (simp add: fromEntries_def map_of_foldl_assign)
qed

lemma distinct_fromEntries: "distinct (map fst (fromEntries kvs))"
  by (simp add: fromEntries_def distinct_foldl_assign)

lemma map_of_mkRecord:
  "map_of (mkRecord rows sel (c, g)) k =
     (if k \<in> set sel then Some (N (reported rows g k))
      else if k = ''condition'' then Some (S c) else None)"
proof -
  let ?fe = "fromEntries (map (\<lambda>col. (col, N (reported rows g col))) sel)"
  have "map_of (rev (entries ?fe)) = map_of ?fe"
    by (simp add: map_of_rev_distinct distinct_entries distinct_fromEntries map_of_entries)
  then show ?thesis
    by (simp add: mkRecord_def map_of_foldl_assign map_of_fromEntries_measures)
qed

lemma or0_not_NaN: "or0 x \<noteq> NaN"
  by (simp add: or0_def)

lemma or0_idem: "or0 (or0 x) = or0 x"
  by (simp add: or0_def)

lemma reported_or0: "or0 (reported rows g col) = reported rows g col"
  by (simp add: reported_def or0_idem)

lemma sortValue_mkRecord:
  "sortValue sel (mkRecord rows sel (c, g)) =
     (case sel of [] \<Rightarrow> Fin 0 | col # _ \<Rightarrow> reported rows g col)"
  by (cases sel) (simp_all add: sortValue_def map_of_mkRecord reported_or0)

lemma sortValue_mkRecord_not_NaN: "sortValue sel (mkRecord rows sel cg) \<noteq> NaN"
proof (cases cg)
  case (Pair c g)
  show ?thesis unfolding Pair sortValue_mkRecord
    by (cases sel) (simp_all add: reported_def or0_not_NaN)
qed

lemma gt0_sub: "x \<noteq> NaN \<Longrightarrow> y \<noteq> NaN \<Longrightarrow> gt0 (num_sub y x) = (\<not> num_le y x)"
  by (cases x; cases y) (auto simp: gt0_def num_sub_def)

lemma not_gt0_sub_self: "\<not> gt0 (num_sub v v)"
  by (cases v) (simp_all add: gt0_def num_sub_def)

lemma num_le_total: "x \<noteq> NaN \<Longrightarrow> y \<noteq> NaN \<Longrightarrow> num_le x y \<or> num_le y x"
  by (cases x; cases y) auto

lemma num_le_trans: "num_le x y \<Longrightarrow> num_le y z \<Longrightarrow> num_le x z"
  by (cases x; cases y; cases z) auto

lemma sorted_byFirstMeasure:
  assumes "\<forall>r \<in> set xs. sortValue sel r \<noteq> NaN"
  shows "sorted_wrt (\<lambda>a b. num_le (sortValue sel b) (sortValue sel a))
           (sortBy (byFirstMeasure sel) xs)"
proof -
  let ?A = "{r. sortValue sel r \<noteq> NaN}"
  have after: "byFirstMeasure sel a b = (\<not> num_le (sortValue sel b) (sortValue sel a))"
    if "a \<in> ?A" "b \<in> ?A" for a b
    using that by (simp add: byFirstMeasure_def gt0_sub)
  have asym: "\<forall>a\<in>?A. \<forall>b\<in>?A. byFirstMeasure sel a b \<longrightarrow> \<not> byFirstMeasure sel b a"
    using after num_le_total by blast
  have trans: "\<forall>a\<in>?A. \<forall>b\<in>?A. \<forall>c\<in>?A. \<not> byFirstMeasure sel a b \<longrightarrow> \<not> byFirstMeasure sel b c
                 \<longrightarrow> \<not> byFirstMeasure sel a c"
    using after num_le_trans by blast
  have sub: "set xs \<subseteq> ?A" using assms by blast
  have s: "sorted_wrt (\<lambda>a b. \<not> byFirstMeasure sel a b) (sortBy (byFirstMeasure sel) xs)"
    by (rule sorted_sortBy[OF asym trans sub])
  have in_A: "set (sortBy (byFirstMeasure sel) xs) \<subseteq> ?A" using sub by (simp add: set_sortBy)
  show ?thesis
  proof (rule sorted_wrt_mono_rel[OF _ s])
    fix a b
    assume "a \<in> set (sortBy (byFirstMeasure sel) xs)" "b \<in> set (sortBy (byFirstMeasure sel) xs)"
      and n: "\<not> byFirstMeasure sel a b"
    then have "a \<in> ?A" "b \<in> ?A" using in_A by blast+
    with n after show "num_le (sortValue sel b) (sortValue sel a)" by blast
  qed
qed

lemma stable_byFirstMeasure:
  "filter (\<lambda>r. sortValue sel r = v) (sortBy (byFirstMeasure sel) xs)
     = filter (\<lambda>r. sortValue sel r = v) xs"
  by (rule stable_sortBy) (auto simp: byFirstMeasure_def not_gt0_sub_self)

lemma sorted_wrt_take: "sorted_wrt P xs \<Longrightarrow> sorted_wrt P (take n xs)"
  by (metis append_take_drop_id sorted_wrt_append)

lemma processData_records:
  assumes "processData rows cc sel filters = Inr out" and "r \<in> set out"
  shows "rows \<noteq> [] \<and> (\<exists>groups c g. conditionCounts rows cc sel filters = Inr groups
           \<and> (c, g) \<in> set groups \<and> r = mkRecord rows sel (c, g))"
proof -
  have ne: "rows \<noteq> []" using assms by (auto simp: processData_def)
  with assms(1) obtain groups where g: "conditionCounts rows cc sel filters = Inr groups"
    and out: "out = take 20 (sortBy (byFirstMeasure sel) (map (mkRecord rows sel) (entries groups)))"
    by (auto simp: processData_def split: sum.splits)
  have "r \<in> set (sortBy (byFirstMeasure sel) (map (mkRecord rows sel) (entries groups)))"
    using assms(2) unfolding out by (rule in_set_takeD)
  then have "r \<in> mkRecord rows sel ` set groups"
    by (simp add: set_sortBy set_entries)
  with ne g show ?thesis by auto
qed

lemma groupAcc_proto: "groupAcc members cc sel c ''__proto__'' = Fin 0"
proof -
  have row: "rowContribution cc sel c ''__proto__'' item = []" for item
    by (simp add: rowContribution_def cellContribution_def)
  have "concat (map (rowContribution cc sel c ''__proto__'') members) = []"
    by (induction members) (simp_all only: row list.map concat.simps append_Nil)
  then show ?thesis by (simp only: groupAcc_def foldl_Nil)
qed

lemma reported_proto:
  "map_of (counts g) ''__proto__'' = None \<Longrightarrow> reported rows g ''__proto__'' = Fin 0"
  by (simp add: reported_def getCount_def or0_def)

subsection \<open>Reported values\<close>

text \<open>
  A group has one accumulator for each measure, to which a cell that parses adds its
  number and any other non-empty cell adds one. In a column whose first row does not
  parse, a later cell \<open>"5"\<close> adds five: the value reported for two rows is 300, not the
  percentage of rows with a non-empty value. In a column whose first row parses, a later
  cell \<open>"x"\<close> adds one: the value reported for \<open>"5"\<close> and \<open>"x"\<close> is 3, not the sum of
  the numbers over the total.
\<close>

theorem mixed_column_counterexample:
  "processData [[(''c'', ''A''), (''m'', ''x'')], [(''c'', ''A''), (''m'', ''5'')]] ''c'' [''m''] []
     = Inr [[(''condition'', S ''A''), (''m'', N (Fin 300))]]
   \<and> specReported [[(''c'', ''A''), (''m'', ''x'')], [(''c'', ''A''), (''m'', ''5'')]]
        [[(''c'', ''A''), (''m'', ''x'')], [(''c'', ''A''), (''m'', ''5'')]] ''c'' ''A'' ''m'' = Fin 100
   \<and> processData [[(''c'', ''A''), (''m'', ''5'')], [(''c'', ''A''), (''m'', ''x'')]] ''c'' [''m''] []
     = Inr [[(''condition'', S ''A''), (''m'', N (Fin 3))]]
   \<and> specReported [[(''c'', ''A''), (''m'', ''5'')], [(''c'', ''A''), (''m'', ''x'')]]
        [[(''c'', ''A''), (''m'', ''5'')], [(''c'', ''A''), (''m'', ''x'')]] ''c'' ''A'' ''m'' = Fin (5 / 2)"
  by code_simp

text \<open>
  C3, amended. Every record of a call that returns belongs to a condition with at least
  one member row. For every measure column, whether the column is numeric is decided by
  the value of the first row of the unfiltered data alone. The record's value for the
  measure is the condition's accumulator divided by the condition's total when the column
  is numeric, and that quotient times 100 otherwise, a \<open>NaN\<close> result being reported as
  zero. The accumulator starts at zero and receives, for every member row with a
  non-empty cell, the parsed number when the cell parses and one when it does not, once
  for every time the condition occurs among the row's tokens and the column among the
  selected columns.
\<close>

theorem reported_values:
  assumes "processData rows conditionColumn selectedColumns filters = Inr out"
    and "r \<in> set out"
    and "col \<in> set selectedColumns"
  shows "rows \<noteq> [] \<and>
    (\<exists>c. (\<exists>item \<in> set (filter (passesFilters filters) rows).
             c \<in> set (conditionsOf conditionColumn item))
        \<and> (''condition'' \<notin> set selectedColumns \<longrightarrow> map_of r ''condition'' = Some (S c))
        \<and> 0 < groupTotal (filter (passesFilters filters) rows) conditionColumn c
        \<and> (\<not> isNaN (parseFloat (firstValue rows col)) \<longrightarrow>
             map_of r col = Some (N (or0
               (num_div (groupAcc (filter (passesFilters filters) rows) conditionColumn
                           selectedColumns c col)
                  (Fin (of_nat (groupTotal (filter (passesFilters filters) rows)
                                  conditionColumn c)))))))
        \<and> (isNaN (parseFloat (firstValue rows col)) \<longrightarrow>
             map_of r col = Some (N (or0
               (num_mul
                  (num_div (groupAcc (filter (passesFilters filters) rows) conditionColumn
                              selectedColumns c col)
                     (Fin (of_nat (groupTotal (filter (passesFilters filters) rows)
                                     conditionColumn c))))
                  (Fin 100))))))"
proof -
  let ?fd = "filter (passesFilters filters) rows"
  from processData_records[OF assms(1,2)] obtain groups c g where
    ne: "rows \<noteq> []"
    and run: "conditionCounts rows conditionColumn selectedColumns filters = Inr groups"
    and cg: "(c, g) \<in> set groups"
    and r: "r = mkRecord rows selectedColumns (c, g)" by blast
  note grp = group_in_conditionCounts[OF run cg]
  have ex: "\<exists>item \<in> set ?fd. c \<in> set (conditionsOf conditionColumn item)" by (rule grp(4))
  then obtain item where "item \<in> set ?fd" "c \<in> set (conditionsOf conditionColumn item)" by blast
  then have "0 < count_list (conditionsOf conditionColumn item) c"
    by (metis count_list_0_iff gr0I)
  with \<open>item \<in> set ?fd\<close> have pos: "0 < groupTotal ?fd conditionColumn c"
    unfolding groupTotal_def by (metis (no_types, lifting) gr_zeroI imageI list.set_map
        not_less_zero sum_list_eq_0_iff)
  have cond: "''condition'' \<notin> set selectedColumns \<longrightarrow> map_of r ''condition'' = Some (S c)"
    by (simp add: r map_of_mkRecord)
  have val: "map_of r col = Some (N (reported rows g col))"
    using assms(3) by (simp add: r map_of_mkRecord)
  have tot: "g_total g = groupTotal ?fd conditionColumn c" by (rule grp(1))
  show ?thesis
  proof (cases "col = ''__proto__''")
    case True
    have v0: "map_of r col = Some (N (Fin 0))"
      using val grp(3) unfolding True by (simp add: reported_proto)
    have q: "num_div (groupAcc ?fd conditionColumn selectedColumns c col)
               (Fin (of_nat (groupTotal ?fd conditionColumn c))) = Fin 0"
      using pos unfolding True by (simp add: groupAcc_proto)
    have a: "\<not> isNaN (parseFloat (firstValue rows col)) \<longrightarrow>
             map_of r col = Some (N (or0
               (num_div (groupAcc ?fd conditionColumn selectedColumns c col)
                  (Fin (of_nat (groupTotal ?fd conditionColumn c))))))"
      unfolding q using v0 by (simp add: or0_def)
    have b: "isNaN (parseFloat (firstValue rows col)) \<longrightarrow>
             map_of r col = Some (N (or0
               (num_mul
                  (num_div (groupAcc ?fd conditionColumn selectedColumns c col)
                     (Fin (of_nat (groupTotal ?fd conditionColumn c))))
                  (Fin 100))))"
      unfolding q using v0 by (simp add: or0_def)
    from ne ex pos cond a b show ?thesis by blast
  next
    case False
    have acc: "getCount (counts g) col = groupAcc ?fd conditionColumn selectedColumns c col"
      using grp(2)[OF assms(3) False] .
    show ?thesis
      using ne ex pos cond val by (auto simp: reported_def isNumeric_def acc tot)
  qed
qed

theorem reported_values_witness:
  "processData [[(''c'', ''A, B''), (''m'', ''5'')], [(''c'', ''B''), (''m'', ''7'')]]
       ''c'' [''m''] []
     = Inr [[(''condition'', S ''B''), (''m'', N (Fin 6))],
            [(''condition'', S ''A''), (''m'', N (Fin 5))]]
   \<and> ''m'' \<in> set [''m'']
   \<and> \<not> isNaN (parseFloat (firstValue
              [[(''c'', ''A, B''), (''m'', ''5'')], [(''c'', ''B''), (''m'', ''7'')]] ''m''))
   \<and> or0 (num_div
        (groupAcc (filter (passesFilters [])
             [[(''c'', ''A, B''), (''m'', ''5'')], [(''c'', ''B''), (''m'', ''7'')]])
           ''c'' [''m''] ''B'' ''m'')
        (Fin (of_nat (groupTotal (filter (passesFilters [])
             [[(''c'', ''A, B''), (''m'', ''5'')], [(''c'', ''B''), (''m'', ''7'')]]) ''c'' ''B''))))
       = Fin 6"
proof -
  let ?rows = "[[(''c'', ''A, B''), (''m'', ''5'')], [(''c'', ''B''), (''m'', ''7'')]]"
  let ?r = "[(''condition'', S ''B''), (''m'', N (Fin 6))]"
  let ?out = "[?r, [(''condition'', S ''A''), (''m'', N (Fin 5))]]"
  have p: "processData ?rows ''c'' [''m''] [] = Inr ?out" by code_simp
  have m: "?r \<in> set ?out" by simp
  have s: "''m'' \<in> set [''m'']" by simp
  have n: "\<not> isNaN (parseFloat (firstValue ?rows ''m''))" by code_simp
  from reported_values[OF p m s] obtain c where
    c: "''condition'' \<notin> set [''m''] \<longrightarrow> map_of ?r ''condition'' = Some (S c)"
    and v: "\<not> isNaN (parseFloat (firstValue ?rows ''m'')) \<longrightarrow>
             map_of ?r ''m'' = Some (N (or0
               (num_div (groupAcc (filter (passesFilters []) ?rows) ''c'' [''m''] c ''m'')
                  (Fin (of_nat (groupTotal (filter (passesFilters []) ?rows) ''c'' c))))))"
    by blast
  from c have "c = ''B''" by simp
  with v n have "or0 (num_div (groupAcc (filter (passesFilters []) ?rows) ''c'' [''m''] ''B'' ''m'')
        (Fin (of_nat (groupTotal (filter (passesFilters []) ?rows) ''c'' ''B'')))) = Fin 6"
    by simp
  with p s n show ?thesis by blast
qed

subsection \<open>Ranking\<close>

text \<open>
  \<open>Object.entries\<close> lists the conditions that are array indices first, by value. Two
  conditions \<open>"2"\<close> and \<open>"1"\<close> with equal values come out as \<open>"1"\<close>, \<open>"2"\<close>, although
  \<open>"2"\<close> appeared first.
\<close>

theorem tie_order_counterexample:
  "processData [[(''c'', ''2''), (''m'', ''1'')], [(''c'', ''1''), (''m'', ''1'')]] ''c'' [''m''] []
     = Inr [[(''condition'', S ''1''), (''m'', N (Fin 1))],
            [(''condition'', S ''2''), (''m'', N (Fin 1))]]
   \<and> sortValue [''m''] [(''condition'', S ''1''), (''m'', N (Fin 1))] = Fin 1
   \<and> sortValue [''m''] [(''condition'', S ''2''), (''m'', N (Fin 1))] = Fin 1
   \<and> rankedByFirstAppearance [[(''c'', ''2''), (''m'', ''1'')], [(''c'', ''1''), (''m'', ''1'')]]
        ''c'' [''m''] []
     = Inr [[(''condition'', S ''2''), (''m'', N (Fin 1))],
            [(''condition'', S ''1''), (''m'', N (Fin 1))]]"
  by code_simp

text \<open>
  C4, amended. When no filtered row reads its condition value from an inherited member
  and no condition token names one, the group aggregator returns, and its output has
  \<open>min(20, n)\<close> records, \<open>n\<close> the number of distinct condition tokens of the filtered
  rows. The output is sorted in descending order of the value of the first selected
  measure. It is the first 20 records of the list of all the records, one for each
  condition, sorted in that order, in which records of equal value keep the order of
  \<open>Object.entries\<close> of the groups: conditions that are array indices first, in ascending
  numeric order, then the others in the order of their first appearance. When no
  condition is an array index, this is the order of first appearance.
\<close>

theorem ranked_top20:
  assumes "ownConditions rows conditionColumn filters"
  shows "\<exists>out groups full.
     processData rows conditionColumn selectedColumns filters = Inr out
   \<and> conditionCounts rows conditionColumn selectedColumns filters = Inr groups
   \<and> length out
       = min 20 (card (\<Union>item \<in> set (filter (passesFilters filters) rows).
                          set (conditionsOf conditionColumn item)))
   \<and> sorted_wrt (\<lambda>a b. num_le (sortValue selectedColumns b) (sortValue selectedColumns a)) out
   \<and> (\<forall>r \<in> set out. \<forall>col rest. selectedColumns = col # rest \<longrightarrow>
          map_of r col = Some (N (sortValue selectedColumns r)))
   \<and> out = take 20 full
   \<and> length full = length groups
   \<and> sorted_wrt (\<lambda>a b. num_le (sortValue selectedColumns b) (sortValue selectedColumns a)) full
   \<and> (\<forall>v. filter (\<lambda>r. sortValue selectedColumns r = v) full
            = filter (\<lambda>r. sortValue selectedColumns r = v)
                (map (mkRecord rows selectedColumns) (entries groups)))
   \<and> map fst groups
        = uniq (concat (map (conditionsOf conditionColumn) (filter (passesFilters filters) rows)))
   \<and> ((\<forall>c \<in> set (map fst groups). \<not> isArrayIndex c) \<longrightarrow> entries groups = groups)"
proof -
  let ?toks = "concat (map (conditionsOf conditionColumn) (filter (passesFilters filters) rows))"
  from conditionCounts_returns[OF assms] obtain groups where
    run: "conditionCounts rows conditionColumn selectedColumns filters = Inr groups" by blast
  let ?recs = "map (mkRecord rows selectedColumns) (entries groups)"
  let ?full = "sortBy (byFirstMeasure selectedColumns) ?recs"
  let ?out = "take 20 ?full"
  have empty: "groups = []" if "rows = []"
    using that run by (simp add: conditionCounts_def)
  have out: "processData rows conditionColumn selectedColumns filters = Inr ?out"
    using empty run by (cases "rows = []") (simp_all add: processData_def entries_def sortBy_def)
  have keys: "map fst groups = uniq ?toks"
    using keys_conditionCounts[OF run] own_tokens[OF assms] by simp
  have "length groups = length (uniq ?toks)" using keys by (metis length_map)
  also have "\<dots> = card (set ?toks)"
    using distinct_card[OF distinct_uniq, of ?toks] by (simp add: set_uniq)
  finally have len: "length groups = card (\<Union>item \<in> set (filter (passesFilters filters) rows).
                        set (conditionsOf conditionColumn item))"
    by simp
  have lfull: "length ?full = length groups"
    by (simp add: length_sortBy length_entries)
  have 1: "length ?out
     = min 20 (card (\<Union>item \<in> set (filter (passesFilters filters) rows).
                        set (conditionsOf conditionColumn item)))"
    using len by (simp add: length_sortBy length_entries min.commute)
  have nn: "\<forall>r \<in> set ?recs. sortValue selectedColumns r \<noteq> NaN"
    by (auto simp: sortValue_mkRecord_not_NaN)
  have sfull: "sorted_wrt (\<lambda>a b. num_le (sortValue selectedColumns b) (sortValue selectedColumns a))
        ?full"
    by (rule sorted_byFirstMeasure[OF nn])
  have 2: "sorted_wrt (\<lambda>a b. num_le (sortValue selectedColumns b) (sortValue selectedColumns a))
        ?out"
    by (rule sorted_wrt_take) (rule sfull)
  have 3: "\<forall>r \<in> set ?out. \<forall>col rest. selectedColumns = col # rest \<longrightarrow>
           map_of r col = Some (N (sortValue selectedColumns r))"
  proof (intro ballI allI impI)
    fix r col rest
    assume r: "r \<in> set ?out" and s: "selectedColumns = col # rest"
    from processData_records[OF out r] obtain c g where "r = mkRecord rows selectedColumns (c, g)"
      by blast
    then show "map_of r col = Some (N (sortValue selectedColumns r))"
      using s by (simp add: sortValue_mkRecord map_of_mkRecord)
  qed
  have 4: "\<forall>v. filter (\<lambda>r. sortValue selectedColumns r = v) ?full
               = filter (\<lambda>r. sortValue selectedColumns r = v) ?recs"
    using stable_byFirstMeasure by blast
  have 5: "(\<forall>c \<in> set (map fst groups). \<not> isArrayIndex c) \<longrightarrow> entries groups = groups"
    using entries_no_index[of groups] by simp
  show ?thesis
    apply (rule exI[of _ ?out])
    apply (rule exI[of _ groups])
    apply (rule exI[of _ ?full])
    using out run 1 2 3 lfull sfull 4 keys 5 apply (intro conjI)
              apply assumption+
         apply (rule refl)
        apply assumption+
    done
qed

theorem ranked_top20_witness:
  "ownConditions [[(''c'', ''A, B''), (''m'', ''5'')], [(''c'', ''B''), (''m'', ''7'')]] ''c'' []
   \<and> processData [[(''c'', ''A, B''), (''m'', ''5'')], [(''c'', ''B''), (''m'', ''7'')]]
        ''c'' [''m''] []
      = Inr [[(''condition'', S ''B''), (''m'', N (Fin 6))],
             [(''condition'', S ''A''), (''m'', N (Fin 5))]]
   \<and> min 20 (card (set (conditionsOf ''c'' [(''c'', ''A, B''), (''m'', ''5'')])
                   \<union> set (conditionsOf ''c'' [(''c'', ''B''), (''m'', ''7'')]))) = 2
   \<and> map fst (projr (conditionCounts
          [[(''c'', ''A, B''), (''m'', ''5'')], [(''c'', ''B''), (''m'', ''7'')]] ''c'' [''m''] []))
       = [''A'', ''B'']
   \<and> \<not> isArrayIndex ''A'' \<and> \<not> isArrayIndex ''B''
   \<and> entries (projr (conditionCounts
          [[(''c'', ''A, B''), (''m'', ''5'')], [(''c'', ''B''), (''m'', ''7'')]] ''c'' [''m''] []))
       = projr (conditionCounts
          [[(''c'', ''A, B''), (''m'', ''5'')], [(''c'', ''B''), (''m'', ''7'')]] ''c'' [''m''] [])"
proof -
  let ?rows = "[[(''c'', ''A, B''), (''m'', ''5'')], [(''c'', ''B''), (''m'', ''7'')]]"
  let ?out = "[[(''condition'', S ''B''), (''m'', N (Fin 6))],
               [(''condition'', S ''A''), (''m'', N (Fin 5))]]"
  have own: "ownConditions ?rows ''c'' []" by code_simp
  have p: "processData ?rows ''c'' [''m''] [] = Inr ?out" by code_simp
  have fd: "filter (passesFilters []) ?rows = ?rows" by code_simp
  have k: "uniq (concat (map (conditionsOf ''c'') ?rows)) = [''A'', ''B'']" by code_simp
  have i: "\<not> isArrayIndex ''A''" "\<not> isArrayIndex ''B''" by code_simp+
  from ranked_top20[OF own, of "[''m'']"] obtain out groups where
    o: "processData ?rows ''c'' [''m''] [] = Inr out"
    and g: "conditionCounts ?rows ''c'' [''m''] [] = Inr groups"
    and l: "length out = min 20 (card (\<Union>item \<in> set (filter (passesFilters []) ?rows).
                          set (conditionsOf ''c'' item)))"
    and ks: "map fst groups = uniq (concat (map (conditionsOf ''c'') (filter (passesFilters []) ?rows)))"
    and e: "(\<forall>c \<in> set (map fst groups). \<not> isArrayIndex c) \<longrightarrow> entries groups = groups"
    by blast
  from o p have "out = ?out" by simp
  with l have c: "min 20 (card (set (conditionsOf ''c'' [(''c'', ''A, B''), (''m'', ''5'')])
                   \<union> set (conditionsOf ''c'' [(''c'', ''B''), (''m'', ''7'')]))) = 2"
    unfolding fd by simp
  from ks have ks': "map fst groups = [''A'', ''B'']" unfolding fd k .
  with e i have e': "entries groups = groups" by simp
  from own p c ks' i e' show ?thesis unfolding g by simp
qed

end
